theory Spec2Isabelle
  imports Complex_Main "HOL-Library.Log_Nat" "HOL-Library.Sublist"
begin

section \<open>Double-precision arithmetic\<close>

text \<open>
  The model and the transformation strategies compute on C++ \<^verbatim>\<open>double\<close> values (IEEE
  binary64). A double is a finite value, one of the two infinities, or a NaN. A finite
  double is modelled by the real number it denotes: the finite doubles are the integer
  multiples of \<open>2\<^sup>-\<^sup>1\<^sup>0\<^sup>7\<^sup>4\<close> with at most 53 significant bits and a magnitude below
  \<open>2\<^sup>1\<^sup>0\<^sup>2\<^sup>4\<close>. The two zeros \<^verbatim>\<open>+0.0\<close> and \<^verbatim>\<open>-0.0\<close> are one value, and so are all NaNs:
  the sources compare, add and multiply coordinates, and never divide by a value that
  can be zero, so that neither the sign of a zero nor the payload of a NaN can be
  observed.

  Every arithmetic operation of the sources on finite operands is the exact operation
  followed by rounding to the nearest double, ties to even, with gradual underflow
  (\<open>fl\<close>, which rounds to 53 significant bits above the smallest quantum); when the
  rounded magnitude reaches \<open>2\<^sup>1\<^sup>0\<^sup>2\<^sup>4\<close> the result is the infinity of that sign
  (\<open>round_double\<close>). On infinities and NaN the operations follow IEEE 754. Each
  operation of the sources is rounded on its own.
\<close>

definition rne :: "real \<Rightarrow> int" where
  "rne y = (let f = \<lfloor>y\<rfloor>; d = y - of_int f in
            if d < 1 / 2 then f
            else if 1 / 2 < d then f + 1
            else if even f then f else f + 1)"

definition quantum_exp :: "real \<Rightarrow> int" where
  "quantum_exp x = max 0 (bitlen \<lfloor>\<bar>x\<bar> * 2 ^ 1074\<rfloor> - 53) - 1074"

definition fl :: "real \<Rightarrow> real" where
  "fl x = of_int (rne (x / 2 powi quantum_exp x)) * 2 powi quantum_exp x"

datatype double = Finite real | PInf | NInf | NaN

definition round_double :: "real \<Rightarrow> double" where
  "round_double x =
     (let y = fl x
      in if 2 ^ 1024 \<le> \<bar>y\<bar> then (if 0 < y then PInf else NInf) else Finite y)"

text \<open>The sign of a value that is not a NaN: whether it is below zero.\<close>

fun is_negative :: "double \<Rightarrow> bool" where
  "is_negative (Finite a) = (a < 0)"
| "is_negative PInf = False"
| "is_negative NInf = True"
| "is_negative NaN = False"

text \<open>Unary minus and \<^verbatim>\<open>std::abs\<close> are exact.\<close>

fun dneg :: "double \<Rightarrow> double" where
  "dneg (Finite a) = Finite (- a)"
| "dneg PInf = NInf"
| "dneg NInf = PInf"
| "dneg NaN = NaN"

fun dabs :: "double \<Rightarrow> double" where
  "dabs (Finite a) = Finite \<bar>a\<bar>"
| "dabs PInf = PInf"
| "dabs NInf = PInf"
| "dabs NaN = NaN"

fun dadd :: "double \<Rightarrow> double \<Rightarrow> double" where
  "dadd (Finite a) (Finite b) = round_double (a + b)"
| "dadd NaN b = NaN"
| "dadd a NaN = NaN"
| "dadd PInf NInf = NaN"
| "dadd NInf PInf = NaN"
| "dadd PInf b = PInf"
| "dadd a PInf = PInf"
| "dadd NInf b = NInf"
| "dadd a NInf = NInf"

fun dsub :: "double \<Rightarrow> double \<Rightarrow> double" where
  "dsub (Finite a) (Finite b) = round_double (a - b)"
| "dsub NaN b = NaN"
| "dsub a NaN = NaN"
| "dsub PInf PInf = NaN"
| "dsub NInf NInf = NaN"
| "dsub PInf b = PInf"
| "dsub a PInf = NInf"
| "dsub NInf b = NInf"
| "dsub a NInf = PInf"

text \<open>A product with an infinity: NaN when the other factor is zero.\<close>

fun dmul :: "double \<Rightarrow> double \<Rightarrow> double" where
  "dmul (Finite a) (Finite b) = round_double (a * b)"
| "dmul NaN b = NaN"
| "dmul a NaN = NaN"
| "dmul a b =
     (if a = Finite 0 \<or> b = Finite 0 then NaN
      else if is_negative a = is_negative b then PInf else NInf)"

text \<open>
  A quotient. The divisors of the sources are 180 and a maximum that is above 10; for a
  divisor zero the result given is the one for \<^verbatim>\<open>+0.0\<close>.
\<close>

fun ddiv :: "double \<Rightarrow> double \<Rightarrow> double" where
  "ddiv (Finite a) (Finite b) =
     (if b = 0 then (if a = 0 then NaN else if a < 0 then NInf else PInf)
      else round_double (a / b))"
| "ddiv NaN b = NaN"
| "ddiv a NaN = NaN"
| "ddiv (Finite a) b = Finite 0"
| "ddiv a (Finite b) = (if is_negative a = (b < 0) then PInf else NInf)"
| "ddiv a b = NaN"

text \<open>The comparisons \<^verbatim>\<open>a < b\<close> and \<^verbatim>\<open>a <= b\<close>: false when an operand is a NaN.\<close>

fun dless :: "double \<Rightarrow> double \<Rightarrow> bool" where
  "dless (Finite a) (Finite b) = (a < b)"
| "dless NaN b = False"
| "dless a NaN = False"
| "dless PInf b = False"
| "dless a NInf = False"
| "dless a b = True"

fun dle :: "double \<Rightarrow> double \<Rightarrow> bool" where
  "dle (Finite a) (Finite b) = (a \<le> b)"
| "dle NaN b = False"
| "dle a NaN = False"
| "dle NInf b = True"
| "dle a PInf = True"
| "dle a b = False"

section \<open>The C library functions the sources call\<close>

text \<open>
  \<^verbatim>\<open>std::getline(stream, line, delim)\<close> called until it fails: the pieces of the text
  between delimiters; a last piece without delimiter is returned when it is not empty.
\<close>

fun getline_loop :: "char \<Rightarrow> string \<Rightarrow> string \<Rightarrow> string list" where
  "getline_loop delim acc [] = (if acc = [] then [] else [rev acc])"
| "getline_loop delim acc (c # cs) =
     (if c = delim then rev acc # getline_loop delim [] cs
      else getline_loop delim (c # acc) cs)"

definition getlines :: "char \<Rightarrow> string \<Rightarrow> string list" where
  "getlines delim s = getline_loop delim [] s"

text \<open>The character classes of \<^verbatim>\<open>ctype.h\<close> in the C locale.\<close>

definition isspace :: "char \<Rightarrow> bool" where
  "isspace c = (c = CHR '' '' \<or> (9 \<le> (of_char c :: nat) \<and> (of_char c :: nat) \<le> 13))"

definition isdigit :: "char \<Rightarrow> bool" where
  "isdigit c = (48 \<le> (of_char c :: nat) \<and> (of_char c :: nat) \<le> 57)"

text \<open>\<^verbatim>\<open>tolower\<close> gives the code of the lower-case letter, as the C function does.\<close>

definition tolower :: "char \<Rightarrow> nat" where
  "tolower c =
     (if 65 \<le> (of_char c :: nat) \<and> (of_char c :: nat) \<le> 90
      then (of_char c :: nat) + 32 else of_char c)"

definition isxdigit :: "char \<Rightarrow> bool" where
  "isxdigit c =
     (isdigit c \<or> (97 \<le> tolower c \<and> tolower c \<le> 102))"

definition digits_value :: "string \<Rightarrow> nat" where
  "digits_value ds = foldl (\<lambda>n c. 10 * n + ((of_char c :: nat) - 48)) 0 ds"

definition xdigit_value :: "char \<Rightarrow> nat" where
  "xdigit_value c =
     (if isdigit c then (of_char c :: nat) - 48 else tolower c - 87)"

definition hex_value :: "string \<Rightarrow> nat" where
  "hex_value ds = foldl (\<lambda>n c. 16 * n + xdigit_value c) 0 ds"

definition scan_sign :: "string \<Rightarrow> bool \<times> string" where
  "scan_sign s =
     (case s of
        [] \<Rightarrow> (False, [])
      | c # r \<Rightarrow> if c = CHR ''-'' then (True, r)
                 else if c = CHR ''+'' then (False, r) else (False, s))"

text \<open>
  The conversion \<^verbatim>\<open>%d\<close> of \<^verbatim>\<open>sscanf(token, "%d", &index) == 1\<close>, as the GNU C library
  does it on a target with a 64-bit \<^verbatim>\<open>long\<close> and a 32-bit \<^verbatim>\<open>int\<close>: white space is
  skipped, then an optional sign and a non-empty run of decimal digits are read; what
  follows the digits is left unread. The digits are converted by \<^verbatim>\<open>strtol\<close>, which gives
  the nearest bound of \<^verbatim>\<open>long\<close> for a value out of its range, and the \<^verbatim>\<open>long\<close> is
  converted to \<^verbatim>\<open>int\<close>, which keeps its low 32 bits in two's complement. \<open>None\<close> is a
  return value other than 1, and \<open>Some i\<close> the value of \<^verbatim>\<open>index\<close> afterwards.
\<close>

definition strtol :: "bool \<Rightarrow> string \<Rightarrow> int" where
  "strtol neg ds =
     (if neg then max (- (2 ^ 63)) (- int (digits_value ds))
      else min (2 ^ 63 - 1) (int (digits_value ds)))"

definition int_of_long :: "int \<Rightarrow> int" where
  "int_of_long l = (l + 2 ^ 31) mod 2 ^ 32 - 2 ^ 31"

definition sscanf_d :: "string \<Rightarrow> int option" where
  "sscanf_d s =
     (let (neg, r) = scan_sign (dropWhile isspace s);
          ds = takeWhile isdigit r
      in if ds = [] then None else Some (int_of_long (strtol neg ds)))"

text \<open>
  The conversion \<^verbatim>\<open>%lf\<close>, as the GNU C library does it in the C locale, which
  \<^verbatim>\<open>gui.cpp\<close> selects with \<^verbatim>\<open>setlocale(LC_NUMERIC, "C")\<close>. White space is skipped and an
  optional sign is read. Then, without regard to case:

  \<^item> \<^verbatim>\<open>nan\<close> is a NaN;
  \<^item> \<^verbatim>\<open>inf\<close> is an infinity; when the next character is an \<^verbatim>\<open>i\<close>, the word must go on
    to \<^verbatim>\<open>infinity\<close>, or the conversion fails;
  \<^item> after \<^verbatim>\<open>0x\<close>, hexadecimal digits with an optional point, and an optional binary
    exponent after \<^verbatim>\<open>p\<close>: with no digit at all the conversion fails when there is no
    point, and gives zero when there is one;
  \<^item> otherwise decimal digits with an optional point, and an optional decimal exponent
    after \<^verbatim>\<open>e\<close>: with no digit in the mantissa the conversion fails.

  An exponent marker is read only after a digit; its sign and digits are optional, and
  without digits it is consumed and counts for nothing. The result is the double
  nearest to the value that was read, an infinity when that is out of range, and the
  unread rest of the input; \<open>None\<close> is a conversion that fails.
\<close>

fun match_ci :: "string \<Rightarrow> string \<Rightarrow> string option" where
  "match_ci [] s = Some s"
| "match_ci (w # ws) [] = None"
| "match_ci (w # ws) (c # cs) = (if tolower c = of_char w then match_ci ws cs else None)"

definition scan_exponent :: "char \<Rightarrow> string \<Rightarrow> int \<times> string" where
  "scan_exponent exp_char s =
     (case s of
        [] \<Rightarrow> (0, [])
      | c # t \<Rightarrow>
          if tolower c = of_char exp_char then
            (let (neg, t1) = scan_sign t;
                 ds = takeWhile isdigit t1
             in (if neg then - int (digits_value ds) else int (digits_value ds),
                 dropWhile isdigit t1))
          else (0, s))"

definition scan_fraction :: "(char \<Rightarrow> bool) \<Rightarrow> string \<Rightarrow> string \<times> string" where
  "scan_fraction is_digit s =
     (case s of
        [] \<Rightarrow> ([], [])
      | c # t \<Rightarrow> if c = CHR ''.'' then (takeWhile is_digit t, dropWhile is_digit t)
                 else ([], s))"

definition scan_dec :: "bool \<Rightarrow> string \<Rightarrow> (double \<times> string) option" where
  "scan_dec neg r1 =
     (let ip = takeWhile isdigit r1;
          (fp, r3) = scan_fraction isdigit (dropWhile isdigit r1)
      in if ip = [] \<and> fp = [] then None
         else
           (let (ex, r4) = scan_exponent CHR ''e'' r3;
                mag = real (digits_value (ip @ fp)) * 10 powi (ex - int (length fp))
            in Some (round_double (if neg then - mag else mag), r4)))"

definition scan_hex :: "bool \<Rightarrow> string \<Rightarrow> (double \<times> string) option" where
  "scan_hex neg r1 =
     (let ip = takeWhile isxdigit r1;
          (fp, r3) = scan_fraction isxdigit (dropWhile isxdigit r1)
      in if ip = [] \<and> fp = [] then
           (if take 1 (dropWhile isxdigit r1) = ''.'' then Some (Finite 0, r3) else None)
         else
           (let (ex, r4) = scan_exponent CHR ''p'' r3;
                mag = real (hex_value (ip @ fp)) * 2 powi (ex - 4 * int (length fp))
            in Some (round_double (if neg then - mag else mag), r4)))"

definition scan_lf :: "string \<Rightarrow> (double \<times> string) option" where
  "scan_lf s =
     (let (neg, r1) = scan_sign (dropWhile isspace s)
      in case match_ci ''nan'' r1 of
           Some r \<Rightarrow> Some (NaN, r)
         | None \<Rightarrow>
             (case match_ci ''inf'' r1 of
                Some r \<Rightarrow>
                  (case match_ci ''i'' r of
                     None \<Rightarrow> Some (if neg then NInf else PInf, r)
                   | Some r' \<Rightarrow>
                       (case match_ci ''inity'' r of
                          None \<Rightarrow> None
                        | Some r'' \<Rightarrow> Some (if neg then NInf else PInf, r'')))
              | None \<Rightarrow>
                  (case match_ci ''0x'' r1 of
                     Some r \<Rightarrow> scan_hex neg r
                   | None \<Rightarrow> scan_dec neg r1)))"

text \<open>
  \<^verbatim>\<open>sscanf(line, "%c %lf %lf %lf", &dummy, &x, &y, &z)\<close> with the variables initialised
  as in \<^verbatim>\<open>VertexParser_\<close>: the return value and the four variables afterwards.
\<close>

definition sscanf_c_lf_lf_lf :: "string \<Rightarrow> int \<times> char \<times> double \<times> double \<times> double" where
  "sscanf_c_lf_lf_lf line =
     (case line of
        [] \<Rightarrow> (- 1, CHR 0x00, Finite 0, Finite 0, Finite 0)
      | dummy # r \<Rightarrow>
          (case scan_lf (dropWhile isspace r) of
             None \<Rightarrow> (1, dummy, Finite 0, Finite 0, Finite 0)
           | Some (x, r1) \<Rightarrow>
               (case scan_lf r1 of
                  None \<Rightarrow> (2, dummy, x, Finite 0, Finite 0)
                | Some (y, r2) \<Rightarrow>
                    (case scan_lf r2 of
                       None \<Rightarrow> (3, dummy, x, y, Finite 0)
                     | Some (z, r3) \<Rightarrow> (4, dummy, x, y, z)))))"

text \<open>
  The mathematical library is not part of the repository. \<^verbatim>\<open>M_PI\<close> is the macro of
  \<^verbatim>\<open>math.h\<close>, the literal \<^verbatim>\<open>3.14159265358979323846\<close> as a double. The functions
  \<^verbatim>\<open>std::cos\<close> and \<^verbatim>\<open>std::sin\<close> are a parameter of the rotation.
\<close>

definition M_PI :: double where
  "M_PI = round_double (314159265358979323846 / 10 ^ 20)"

record libm =
  std_cos :: "double \<Rightarrow> double"
  std_sin :: "double \<Rightarrow> double"

section \<open>Transformation strategies (tranformation.h, tranformation.cpp)\<close>

text \<open>
  \<^verbatim>\<open>enum transformation_t\<close> names the axes and the kinds of transformation with the same
  three values. \<^verbatim>\<open>Model::Transform\<close> takes the kind as an \<^verbatim>\<open>int\<close>, and the controller
  casts an \<^verbatim>\<open>int\<close> to the axis, so both are integers here.
\<close>

type_synonym transformation_t = int

definition kX :: transformation_t where "kX = 0"
definition kY :: transformation_t where "kY = 1"
definition kZ :: transformation_t where "kZ = 2"
definition kMove :: transformation_t where "kMove = 0"
definition kRotate :: transformation_t where "kRotate = 1"
definition kScale :: transformation_t where "kScale = 2"

text \<open>\<^verbatim>\<open>static_cast<size_t>(axis)\<close> on a 64-bit target.\<close>

definition size_t_of :: "int \<Rightarrow> nat" where
  "size_t_of a = nat (a mod 2 ^ 64)"

function move_loop :: "nat \<Rightarrow> double \<Rightarrow> double list \<Rightarrow> double list" where
  "move_loop i step v =
     (if i < length v then move_loop (i + 3) step (v[i := dadd (v ! i) step]) else v)"
  by pat_completeness auto
termination
  by (relation "measure (\<lambda>(i, step, v). length v - i)") auto

definition MoveStrategy_Transform ::
  "double list \<Rightarrow> double \<Rightarrow> transformation_t \<Rightarrow> double list" where
  "MoveStrategy_Transform vertex_coord step axis = move_loop (size_t_of axis) step vertex_coord"

text \<open>
  The rotation loops read \<^verbatim>\<open>vertex_coord[i + 1]\<close> or \<^verbatim>\<open>vertex_coord[i + 2]\<close> after
  testing \<^verbatim>\<open>i < vertex_coord.size()\<close> only. A read past the end of the vector is
  undefined behaviour: the result \<open>None\<close>.
\<close>

function RotateAroundX_loop ::
  "nat \<Rightarrow> double \<Rightarrow> double \<Rightarrow> double list \<Rightarrow> double list option" where
  "RotateAroundX_loop i cos_val sin_val v =
     (if i < length v then
        (if i + 1 < length v then
           (let y = v ! i; z = v ! (i + 1)
            in RotateAroundX_loop (i + 3) cos_val sin_val
                 (v[i := dsub (dmul cos_val y) (dmul sin_val z),
                    i + 1 := dadd (dmul sin_val y) (dmul cos_val z)]))
         else None)
      else Some v)"
  by pat_completeness auto
termination
  by (relation "measure (\<lambda>(i, c, s, v). length v - i)") auto

function RotateAroundY_loop ::
  "nat \<Rightarrow> double \<Rightarrow> double \<Rightarrow> double list \<Rightarrow> double list option" where
  "RotateAroundY_loop i cos_val sin_val v =
     (if i < length v then
        (if i + 2 < length v then
           (let x = v ! i; z = v ! (i + 2)
            in RotateAroundY_loop (i + 3) cos_val sin_val
                 (v[i := dadd (dmul cos_val x) (dmul sin_val z),
                    i + 2 := dadd (dmul (dneg sin_val) x) (dmul cos_val z)]))
         else None)
      else Some v)"
  by pat_completeness auto
termination
  by (relation "measure (\<lambda>(i, c, s, v). length v - i)") auto

function RotateAroundZ_loop ::
  "nat \<Rightarrow> double \<Rightarrow> double \<Rightarrow> double list \<Rightarrow> double list option" where
  "RotateAroundZ_loop i cos_val sin_val v =
     (if i < length v then
        (if i + 1 < length v then
           (let x = v ! i; y = v ! (i + 1)
            in RotateAroundZ_loop (i + 3) cos_val sin_val
                 (v[i := dadd (dmul cos_val x) (dmul sin_val y),
                    i + 1 := dadd (dmul (dneg sin_val) x) (dmul cos_val y)]))
         else None)
      else Some v)"
  by pat_completeness auto
termination
  by (relation "measure (\<lambda>(i, c, s, v). length v - i)") auto

definition RotateAroundX :: "double list \<Rightarrow> double \<Rightarrow> double \<Rightarrow> double list option" where
  "RotateAroundX vertex_coord cos_val sin_val = RotateAroundX_loop 1 cos_val sin_val vertex_coord"

definition RotateAroundY :: "double list \<Rightarrow> double \<Rightarrow> double \<Rightarrow> double list option" where
  "RotateAroundY vertex_coord cos_val sin_val = RotateAroundY_loop 0 cos_val sin_val vertex_coord"

definition RotateAroundZ :: "double list \<Rightarrow> double \<Rightarrow> double \<Rightarrow> double list option" where
  "RotateAroundZ vertex_coord cos_val sin_val = RotateAroundZ_loop 0 cos_val sin_val vertex_coord"

definition kRadianToDegree :: double where
  "kRadianToDegree = ddiv M_PI (Finite 180)"

definition RotateStrategy_Transform ::
  "libm \<Rightarrow> double list \<Rightarrow> double \<Rightarrow> transformation_t \<Rightarrow> double list option" where
  "RotateStrategy_Transform L vertex_coord angle axis =
     (if length vertex_coord < 3 then Some vertex_coord
      else
        (let rad_angle = dmul angle kRadianToDegree;
             cos_val = std_cos L rad_angle;
             sin_val = std_sin L rad_angle
         in if axis = kX then RotateAroundX vertex_coord cos_val sin_val
            else if axis = kY then RotateAroundY vertex_coord cos_val sin_val
            else if axis = kZ then RotateAroundZ vertex_coord cos_val sin_val
            else Some vertex_coord))"

definition ScaleStrategy_Transform ::
  "double list \<Rightarrow> double \<Rightarrow> transformation_t \<Rightarrow> double list" where
  "ScaleStrategy_Transform vertex_coord scale axis =
     (if dle scale (Finite 0) then vertex_coord
      else map (\<lambda>coord. dmul coord scale) vertex_coord)"

text \<open>
  The rotation of one vertex \<open>(x, y, z)\<close> as the specification states it, with the
  products and sums of doubles: around X, \<open>y' = y\<cdot>cos \<theta> - z\<cdot>sin \<theta>\<close> and
  \<open>z' = y\<cdot>sin \<theta> + z\<cdot>cos \<theta>\<close>; around Y, \<open>x' = x\<cdot>cos \<theta> + z\<cdot>sin \<theta>\<close> and
  \<open>z' = -x\<cdot>sin \<theta> + z\<cdot>cos \<theta>\<close>; around Z, \<open>x' = x\<cdot>cos \<theta> + y\<cdot>sin \<theta>\<close> and
  \<open>y' = -x\<cdot>sin \<theta> + y\<cdot>cos \<theta>\<close>.
\<close>

definition spec_rotate_vertex ::
  "transformation_t \<Rightarrow> double \<Rightarrow> double \<Rightarrow> double \<times> double \<times> double
     \<Rightarrow> double \<times> double \<times> double" where
  "spec_rotate_vertex axis cos_t sin_t p =
     (case p of (x, y, z) \<Rightarrow>
        if axis = kX then (x, dsub (dmul y cos_t) (dmul z sin_t), dadd (dmul y sin_t) (dmul z cos_t))
        else if axis = kY then (dadd (dmul x cos_t) (dmul z sin_t), y, dadd (dmul (dneg x) sin_t) (dmul z cos_t))
        else if axis = kZ then (dadd (dmul x cos_t) (dmul y sin_t), dadd (dmul (dneg x) sin_t) (dmul y cos_t), z)
        else (x, y, z))"

datatype TransformationStrategy = MoveStrategy | RotateStrategy | ScaleStrategy

text \<open>The virtual call \<^verbatim>\<open>strategy_->Transform(vertex_coord, value, axis)\<close>.\<close>

fun Strategy_Transform ::
  "libm \<Rightarrow> TransformationStrategy \<Rightarrow> double list \<Rightarrow> double \<Rightarrow> transformation_t
     \<Rightarrow> double list option" where
  "Strategy_Transform L MoveStrategy v val axis = Some (MoveStrategy_Transform v val axis)"
| "Strategy_Transform L RotateStrategy v val axis = RotateStrategy_Transform L v val axis"
| "Strategy_Transform L ScaleStrategy v val axis = Some (ScaleStrategy_Transform v val axis)"

definition PerformTransformation ::
  "libm \<Rightarrow> TransformationStrategy option \<Rightarrow> double list \<Rightarrow> double \<Rightarrow> transformation_t
     \<Rightarrow> double list option" where
  "PerformTransformation L strategy v val axis =
     (case strategy of
        None \<Rightarrow> Some v
      | Some s \<Rightarrow> Strategy_Transform L s v val axis)"

section \<open>The model (model.h, model.cpp)\<close>

datatype error_list = kNoError | kFileWrongExtension | kFailedToOpen | kIncorrectData

text \<open>
  The fields of \<^verbatim>\<open>class Model\<close>, without the trailing underscore of their names;
  \<open>strategy\<close> is the pointer held by \<^verbatim>\<open>transformation_model_\<close>. The field
  \<^verbatim>\<open>error_code_\<close> is an \<^verbatim>\<open>int\<close> that only ever holds a value of \<^verbatim>\<open>enum error_list\<close>.
  The elements of \<^verbatim>\<open>vertex_index_\<close> are of type \<^verbatim>\<open>int\<close>: each is the integer it denotes,
  and the parser only stores values from 0 to \<open>2\<^sup>3\<^sup>1 - 2\<close>.
\<close>

record Model =
  filename :: string
  vertex_coord :: "double list"
  vertex_index :: "int list"
  error_code :: error_list
  strategy :: "TransformationStrategy option"

definition kNormalizationThreshold :: double where
  "kNormalizationThreshold = Finite 10"

definition kMinObjFilenameLength :: nat where
  "kMinObjFilenameLength = 5"

definition GetVertexCount :: "Model \<Rightarrow> nat" where
  "GetVertexCount m = length (vertex_coord m) div 3"

definition GetEdgeCount :: "Model \<Rightarrow> nat" where
  "GetEdgeCount m = length (vertex_index m) div 2"

definition ClearData :: "Model \<Rightarrow> Model" where
  "ClearData m = m\<lparr>vertex_coord := [], vertex_index := [], error_code := kNoError\<rparr>"

definition IsValidObjExtension :: "string \<Rightarrow> bool" where
  "IsValidObjExtension fname =
     (if length fname < kMinObjFilenameLength then False
      else 4 \<le> length fname \<and> take 4 (drop (length fname - 4) fname) = ''.obj'')"

definition SetFileName :: "string \<Rightarrow> Model \<Rightarrow> Model" where
  "SetFileName file_name m =
     (let m1 = ClearData m
      in if \<not> IsValidObjExtension file_name then m1\<lparr>error_code := kFileWrongExtension\<rparr>
         else m1\<lparr>filename := file_name, error_code := kNoError\<rparr>)"

definition VertexParser :: "string \<Rightarrow> Model \<Rightarrow> Model" where
  "VertexParser line m =
     (let (parsed, dummy, x, y, z) = sscanf_c_lf_lf_lf line
      in if parsed = 4 \<and> dummy = CHR ''v'' then m\<lparr>vertex_coord := vertex_coord m @ [x, y, z]\<rparr>
         else m\<lparr>error_code := kIncorrectData\<rparr>)"

text \<open>
  The token loop of \<^verbatim>\<open>EdgesParser_\<close>. For \<^verbatim>\<open>index > 0\<close> the difference \<^verbatim>\<open>index - 1\<close> does
  not leave the range of \<^verbatim>\<open>int\<close>.
\<close>

fun face_indices_loop :: "string list \<Rightarrow> int list \<Rightarrow> int list" where
  "face_indices_loop [] face_indices = face_indices"
| "face_indices_loop (token # rest) face_indices =
     (if token = [] then face_indices_loop rest face_indices
      else
        (case sscanf_d token of
           Some index \<Rightarrow>
             if index > 0 then face_indices_loop rest (face_indices @ [index - 1])
             else face_indices_loop rest face_indices
         | None \<Rightarrow> face_indices_loop rest face_indices))"

definition face_edges :: "int list \<Rightarrow> int list \<Rightarrow> int list" where
  "face_edges face_indices vi =
     fold (\<lambda>i acc. acc @ [face_indices ! i, face_indices ! ((i + 1) mod length face_indices)])
       [0..<length face_indices] vi"

definition EdgesParser :: "string \<Rightarrow> Model \<Rightarrow> Model" where
  "EdgesParser line m =
     (let face_indices = face_indices_loop (getlines CHR '' '' line) []
      in if length face_indices \<ge> 2
         then m\<lparr>vertex_index := face_edges face_indices (vertex_index m)\<rparr>
         else m)"

definition max_abs_loop :: "double list \<Rightarrow> double" where
  "max_abs_loop v =
     fold (\<lambda>coord max_abs_value.
             (let abs_coord = dabs coord
              in if dless max_abs_value abs_coord then abs_coord else max_abs_value))
       v (Finite 0)"

definition Normalize :: "Model \<Rightarrow> Model" where
  "Normalize m =
     (if vertex_coord m = [] then m
      else
        (let max_abs_value = max_abs_loop (vertex_coord m)
         in if dless kNormalizationThreshold max_abs_value then
              (let scale_factor = ddiv (Finite 1) max_abs_value
               in m\<lparr>vertex_coord := map (\<lambda>coord. dmul coord scale_factor) (vertex_coord m)\<rparr>)
            else m))"

text \<open>The body of the reading loop of \<^verbatim>\<open>Parser\<close> for one line.\<close>

definition parse_line :: "string \<Rightarrow> Model \<Rightarrow> Model" where
  "parse_line line m =
     (if line = [] \<or> line ! 0 = CHR ''#'' then m
      else if length line \<ge> 2 then
        (if line ! 0 = CHR ''v'' \<and> line ! 1 = CHR '' '' then VertexParser line m
         else if line ! 0 = CHR ''f'' \<and> line ! 1 = CHR '' '' then EdgesParser (drop 2 line) m
         else m)
      else m)"

text \<open>
  The loop \<^verbatim>\<open>while (error_code_ == kNoError && std::getline(file, line))\<close> on the lines
  still in the file: the model afterwards, and the lines that were not read.
\<close>

fun parse_loop :: "string list \<Rightarrow> Model \<Rightarrow> Model \<times> string list" where
  "parse_loop [] m = (m, [])"
| "parse_loop (line # rest) m =
     (if error_code m = kNoError then parse_loop rest (parse_line line m)
      else (m, line # rest))"

text \<open>
  The file system is a map from paths to contents; \<open>None\<close> is a file that cannot be
  opened.
\<close>

type_synonym file_system = "string \<Rightarrow> string option"

definition Parser :: "file_system \<Rightarrow> Model \<Rightarrow> Model" where
  "Parser fs m =
     (if error_code m \<noteq> kNoError then m
      else
        (case fs (filename m) of
           None \<Rightarrow> m\<lparr>error_code := kFailedToOpen\<rparr>
         | Some content \<Rightarrow>
             (let m1 = fst (parse_loop (getlines (CHR 0x0A) content) m)
              in if error_code m1 = kNoError then Normalize m1 else m1)))"

definition Model_Transform ::
  "libm \<Rightarrow> int \<Rightarrow> double \<Rightarrow> transformation_t \<Rightarrow> Model \<Rightarrow> Model option" where
  "Model_Transform L strategy_type val axis m =
     (if vertex_coord m = [] then Some m
      else
        (case (if strategy_type = kMove then Some MoveStrategy
               else if strategy_type = kRotate then Some RotateStrategy
               else if strategy_type = kScale then Some ScaleStrategy
               else None) of
           None \<Rightarrow> Some m
         | Some s \<Rightarrow>
             (let m1 = m\<lparr>strategy := Some s\<rparr>
              in map_option (\<lambda>v. m1\<lparr>vertex_coord := v\<rparr>)
                   (PerformTransformation L (strategy m1) (vertex_coord m1) val axis))))"

section \<open>Loading a model (controller.h)\<close>

text \<open>What \<^verbatim>\<open>Controller::LoadModel\<close> does to the model: the source is set, then parsed.\<close>

definition LoadModel :: "file_system \<Rightarrow> string \<Rightarrow> Model \<Rightarrow> Model" where
  "LoadModel fs file_path m = Parser fs (SetFileName file_path m)"

text \<open>
  Two properties of the lines of a file, to state where edge indices come from: \<open>j\<close> is
  what a face line writes for one of its tokens (the token is read as the \<^verbatim>\<open>int\<close>
  \<open>j + 1 > 0\<close>), and every token of every face line is read as an \<^verbatim>\<open>int\<close> of at most \<open>n\<close>
  or not at all.
\<close>

definition from_face_token :: "string list \<Rightarrow> int \<Rightarrow> bool" where
  "from_face_token lines j \<longleftrightarrow>
     0 \<le> j \<and> (\<exists>line \<in> set lines. take 2 line = ''f '' \<and>
        (\<exists>tok \<in> set (getlines CHR '' '' (drop 2 line)). sscanf_d tok = Some (j + 1)))"

definition face_tokens_at_most :: "string list \<Rightarrow> int \<Rightarrow> bool" where
  "face_tokens_at_most lines n \<longleftrightarrow>
     (\<forall>line \<in> set lines. take 2 line = ''f '' \<longrightarrow>
        (\<forall>tok \<in> set (getlines CHR '' '' (drop 2 line)).
           case sscanf_d tok of None \<Rightarrow> True | Some i \<Rightarrow> i \<le> n))"

text \<open>
  A correctly rounded mathematical library, to show that the accuracy asked of
  \<^verbatim>\<open>std::cos\<close> and \<^verbatim>\<open>std::sin\<close> can be met: the cosine and the sine of an infinity or a
  NaN are NaN.
\<close>

definition rounded_libm :: libm where
  "rounded_libm =
     \<lparr>std_cos = (\<lambda>x. case x of Finite r \<Rightarrow> round_double (cos r) | _ \<Rightarrow> NaN),
      std_sin = (\<lambda>x. case x of Finite r \<Rightarrow> round_double (sin r) | _ \<Rightarrow> NaN)\<rparr>"

section \<open>Properties of the rounding\<close>

lemma rne_of_int [simp]: "rne (of_int k) = k"
  by (simp add: rne_def)

lemma rne_0 [simp]: "rne 0 = 0"
  by (simp add: rne_def)

lemma fl_0 [simp]: "fl 0 = 0"
  by (simp add: fl_def)

lemma quantum_exp_ge: "- 1074 \<le> quantum_exp x"
  by (simp add: quantum_exp_def)

lemma quantum_exp_pow2:
  assumes "k \<noteq> 0" "- 1074 \<le> e"
  shows "quantum_exp (of_int k * 2 powi e) = max 0 (bitlen \<bar>k\<bar> + e + 1021) - 1074"
proof -
  have "\<bar>real_of_int k * 2 powi e\<bar> * 2 ^ 1074 = of_int \<bar>k\<bar> * (2 powi e * 2 powi 1074)"
    by (simp add: abs_mult)
  also have "2 powi e * 2 powi 1074 = (2::real) powi (e + 1074)"
    by (simp add: power_int_add)
  also have "\<dots> = 2 ^ nat (e + 1074)"
    using assms by (simp add: power_int_nonneg_exp)
  finally have "\<bar>real_of_int k * 2 powi e\<bar> * 2 ^ 1074 = of_int (\<bar>k\<bar> * 2 ^ nat (e + 1074))"
    by simp
  then have "\<lfloor>\<bar>real_of_int k * 2 powi e\<bar> * 2 ^ 1074\<rfloor> = \<bar>k\<bar> * 2 ^ nat (e + 1074)"
    by (metis floor_of_int)
  moreover have "bitlen (\<bar>k\<bar> * 2 ^ nat (e + 1074)) = bitlen \<bar>k\<bar> + int (nat (e + 1074))"
    using assms by (intro bitlen_pow2) simp
  ultimately show ?thesis
    using assms by (simp add: quantum_exp_def)
qed

text \<open>A value with at most 53 significant bits above the smallest quantum is a double.\<close>

lemma fl_representable:
  assumes "\<bar>k\<bar> < 2 ^ 53" "- 1074 \<le> e"
  shows "fl (of_int k * 2 powi e) = of_int k * 2 powi e"
proof (cases "k = 0")
  case True
  then show ?thesis by simp
next
  case False
  define q where "q = quantum_exp (of_int k * 2 powi e)"
  have "bitlen \<bar>k\<bar> \<le> 53"
    using assms by (simp add: bitlen_le_iff_power)
  then have qe: "q \<le> e"
    using assms False by (simp add: q_def quantum_exp_pow2)
  have "real_of_int k * 2 powi e / 2 powi q = of_int k * 2 powi (e - q)"
    by (simp add: power_int_diff)
  also have "\<dots> = of_int (k * 2 ^ nat (e - q))"
    using qe by (simp add: power_int_nonneg_exp)
  finally have "rne (real_of_int k * 2 powi e / 2 powi q) = k * 2 ^ nat (e - q)"
    by (metis rne_of_int)
  then have "fl (of_int k * 2 powi e) = of_int (k * 2 ^ nat (e - q)) * 2 powi q"
    by (simp add: fl_def q_def)
  also have "\<dots> = of_int k * (2 powi (e - q) * 2 powi q)"
    using qe by (simp add: power_int_nonneg_exp)
  also have "2 powi (e - q) * 2 powi q = (2::real) powi e"
    by (simp add: power_int_diff)
  finally show ?thesis .
qed

lemma fl_of_int: "\<bar>k\<bar> < 2 ^ 53 \<Longrightarrow> fl (of_int k) = of_int k"
  using fl_representable [of k 0] by simp

lemma fl_1 [simp]: "fl 1 = 1"
  using fl_of_int [of 1] by simp

lemma fl_numeral: "numeral n < (2::int) ^ 53 \<Longrightarrow> fl (numeral n) = numeral n"
  using fl_of_int [of "numeral n"] by simp

lemma rne_error: "\<bar>of_int (rne y) - y\<bar> \<le> 1 / 2"
  unfolding rne_def Let_def by (auto; linarith)

lemma rne_mono_int: "of_int a \<le> y \<Longrightarrow> a \<le> rne y"
  unfolding rne_def Let_def by (auto; linarith)

lemma rne_le_int: "y \<le> of_int a \<Longrightarrow> rne y \<le> a"
  unfolding rne_def Let_def
  by (auto; linarith)

lemma rne_abs_le:
  assumes "\<bar>y\<bar> \<le> of_int a"
  shows "\<bar>rne y\<bar> \<le> a"
proof -
  from assms have "of_int (- a) \<le> y" "y \<le> of_int a" by simp_all
  then have "- a \<le> rne y" "rne y \<le> a"
    using rne_mono_int [of "- a" y] rne_le_int [of y a] by blast+
  then show ?thesis by simp
qed

lemma floor_lt_bitlen_pow:
  fixes y :: real
  assumes y: "0 \<le> y"
  shows "y < 2 ^ nat (bitlen \<lfloor>y\<rfloor>)"
proof -
  have "\<lfloor>y\<rfloor> < 2 ^ nat (bitlen \<lfloor>y\<rfloor>)"
  proof (cases "0 < \<lfloor>y\<rfloor>")
    case True
    then show ?thesis using bitlen_bounds by blast
  next
    case False
    with y have "\<lfloor>y\<rfloor> = 0" by (simp add: order_antisym)
    then show ?thesis by simp
  qed
  then have "\<lfloor>y\<rfloor> + 1 \<le> 2 ^ nat (bitlen \<lfloor>y\<rfloor>)" by simp
  then have "real_of_int (\<lfloor>y\<rfloor> + 1) \<le> real_of_int (2 ^ nat (bitlen \<lfloor>y\<rfloor>))"
    by (rule of_int_le_iff [THEN iffD2])
  moreover have "y < real_of_int (\<lfloor>y\<rfloor> + 1)" by linarith
  ultimately have "y < real_of_int (2 ^ nat (bitlen \<lfloor>y\<rfloor>))" by linarith
  then show ?thesis by simp
qed

text \<open>The scaled magnitude is below 2^53.\<close>
lemma scaled_lt:
  "\<bar>x\<bar> / 2 powi quantum_exp x < 2 ^ 53"
proof -
  define y where "y = \<bar>x\<bar> * 2 ^ 1074"
  define L where "L = bitlen \<lfloor>y\<rfloor>"
  have y0: "0 \<le> y" by (simp add: y_def)
  have L0: "0 \<le> L" by (simp add: L_def bitlen_nonneg)
  have yl: "y < 2 ^ nat L" unfolding L_def using y0 by (rule floor_lt_bitlen_pow)
  have q: "quantum_exp x = max 0 (L - 53) - 1074"
    by (simp add: quantum_exp_def L_def y_def)
  have "\<bar>x\<bar> / 2 powi quantum_exp x = y / 2 powi (max 0 (L - 53))"
    by (simp add: q y_def power_int_diff)
  also have "\<dots> < 2 ^ 53"
  proof (cases "L \<le> 53")
    case True
    then have "nat L \<le> 53" by simp
    then have "(2::real) ^ nat L \<le> 2 ^ 53" by (intro power_increasing) simp_all
    with yl True show ?thesis by simp
  next
    case False
    then have m: "max 0 (L - 53) = L - 53" by simp
    have "(2::real) ^ nat L = 2 powi L" using L0 by (simp add: power_int_nonneg_exp)
    also have "\<dots> = 2 powi (L - 53) * 2 ^ 53" by (simp add: power_int_diff)
    finally have "y < 2 powi (L - 53) * 2 ^ 53" using yl by simp
    then show ?thesis unfolding m by (simp add: pos_divide_less_eq mult.commute)
  qed
  finally show ?thesis .
qed

lemma fl_is_double:
  "\<exists>k e. \<bar>k\<bar> < 2 ^ 53 \<and> - 1074 \<le> e \<and> fl x = of_int k * 2 powi e"
proof -
  define q where "q = quantum_exp x"
  define K where "K = rne (x / 2 powi q)"
  have fl: "fl x = of_int K * 2 powi q" by (simp add: fl_def K_def q_def)
  have q: "- 1074 \<le> q" by (simp add: q_def quantum_exp_ge)
  have "\<bar>x / 2 powi q\<bar> < 2 ^ 53" using scaled_lt [of x] by (simp add: q_def)
  then have "\<bar>x / 2 powi q\<bar> \<le> of_int (2 ^ 53)" by simp
  then have K: "\<bar>K\<bar> \<le> 2 ^ 53" unfolding K_def by (rule rne_abs_le)
  show ?thesis
  proof (cases "\<bar>K\<bar> < 2 ^ 53")
    case True
    with q fl show ?thesis by blast
  next
    case False
    with K have "\<bar>K\<bar> = 2 ^ 53" by simp
    then have "K = 2 ^ 53 \<or> K = - (2 ^ 53)" by linarith
    then have "of_int K * 2 powi q = of_int (K div 2 ^ 53) * (2::real) powi (q + 53)"
      by (auto simp add: power_int_add)
    moreover have "\<bar>K div 2 ^ 53\<bar> < 2 ^ 53" using \<open>K = 2 ^ 53 \<or> K = - (2 ^ 53)\<close> by auto
    moreover have "- 1074 \<le> q + 53" using q by simp
    ultimately show ?thesis using fl by metis
  qed
qed

lemma fl_idem [simp]: "fl (fl x) = fl x"
  using fl_is_double [of x] fl_representable by auto

lemma fl_fixed_times2:
  assumes "fl c = c"
  shows "fl (c * 2) = c * 2"
proof -
  obtain k e where ke: "\<bar>k\<bar> < 2 ^ 53" "- 1074 \<le> e" "fl c = of_int k * 2 powi e"
    using fl_is_double by blast
  then have "c * 2 = of_int k * 2 powi (e + 1)"
    using assms by (simp add: power_int_add)
  moreover have "fl (of_int k * 2 powi (e + 1)) = of_int k * 2 powi (e + 1)"
    using ke by (intro fl_representable) simp_all
  ultimately show ?thesis by simp
qed

lemma p2_add: "(2::real) powi a * 2 powi b = 2 powi (a + b)"
  by (simp add: power_int_add)

lemma quantum_exp_bound:
  "2 powi quantum_exp x \<le> max (2 powi (- 1074)) (\<bar>x\<bar> * 2 powi (- 52))"
proof -
  define n where "n = \<lfloor>\<bar>x\<bar> * 2 ^ 1074\<rfloor>"
  define L where "L = bitlen n"
  have q: "quantum_exp x = max 0 (L - 53) - 1074"
    by (simp add: quantum_exp_def L_def n_def)
  show ?thesis
  proof (cases "L \<le> 53")
    case True
    then have "quantum_exp x = - 1074" by (simp add: q)
    then show ?thesis by (simp only: max.cobounded1)
  next
    case False
    then have q': "quantum_exp x = L - 1127" by (simp add: q)
    from False have "0 < n" using bitlen_eq_zero_iff [of n] by (simp add: L_def)
    then have "2 ^ nat (L - 1) \<le> n" unfolding L_def using bitlen_bounds by blast
    then have "real_of_int (2 ^ nat (L - 1)) \<le> real_of_int n"
      by (rule of_int_le_iff [THEN iffD2])
    moreover have "real_of_int n \<le> \<bar>x\<bar> * 2 ^ 1074" unfolding n_def by (rule of_int_floor_le)
    ultimately have "real_of_int (2 ^ nat (L - 1)) \<le> \<bar>x\<bar> * 2 ^ 1074" by (rule order_trans)
    then have "2 ^ nat (L - 1) \<le> \<bar>x\<bar> * 2 ^ 1074"
      by (simp only: of_int_power of_int_numeral)
    moreover have "(2::real) ^ nat (L - 1) = 2 powi (L - 1)"
      using False by (simp add: power_int_nonneg_exp)
    moreover have "(2::real) ^ 1074 = 2 powi 1074"
      by simp
    ultimately have "2 powi (L - 1) \<le> \<bar>x\<bar> * 2 powi 1074" by (simp only:)
    then have "2 powi (L - 1) * 2 powi (- 1126) \<le> \<bar>x\<bar> * 2 powi 1074 * 2 powi (- 1126)"
      by (rule mult_right_mono) (rule zero_le_power_int, simp)
    moreover have "(2::real) powi (L - 1) * 2 powi (- 1126) = 2 powi (L - 1127)"
      unfolding p2_add by (rule arg_cong [of _ _ "\<lambda>e. 2 powi e"]) simp
    moreover have "\<bar>x\<bar> * 2 powi 1074 * 2 powi (- 1126) = \<bar>x\<bar> * (2 powi (- 52))"
      unfolding mult.assoc p2_add by (rule arg_cong [of _ _ "\<lambda>e. \<bar>x\<bar> * 2 powi e"]) simp
    ultimately have "2 powi (L - 1127) \<le> \<bar>x\<bar> * 2 powi (- 52)" by (simp only:)
    then have "2 powi quantum_exp x \<le> \<bar>x\<bar> * 2 powi (- 52)" by (simp only: q')
    then show ?thesis by (simp only: max.coboundedI2)
  qed
qed

lemma fl_error_quantum: "\<bar>fl x - x\<bar> \<le> 2 powi quantum_exp x / 2"
proof -
  define q where "q = quantum_exp x"
  have p: "(0::real) < 2 powi q" by simp
  have "fl x - x = (of_int (rne (x / 2 powi q)) - x / 2 powi q) * 2 powi q"
    by (simp add: fl_def q_def algebra_simps)
  then have "\<bar>fl x - x\<bar> = \<bar>of_int (rne (x / 2 powi q)) - x / 2 powi q\<bar> * 2 powi q"
    by (simp add: abs_mult)
  also have "\<dots> \<le> 1 / 2 * 2 powi q"
    by (intro mult_right_mono rne_error) simp
  finally show ?thesis by (simp add: q_def)
qed

lemma fl_error: "\<bar>fl x - x\<bar> \<le> 2 powi (- 1075) + \<bar>x\<bar> * 2 powi (- 53)"
proof -
  have "2 powi quantum_exp x / 2 \<le> max (2 powi (- 1074)) (\<bar>x\<bar> * 2 powi (- 52)) / 2"
    using quantum_exp_bound [of x] by simp
  also have "\<dots> \<le> (2 powi (- 1074) + \<bar>x\<bar> * 2 powi (- 52)) / 2"
    by (simp add: max_def)
  also have "\<dots> = 2 powi (- 1075) + \<bar>x\<bar> * 2 powi (- 53)"
    by (simp add: power_int_def field_simps)
  finally show ?thesis using fl_error_quantum [of x] by linarith
qed

lemma quantum_exp_binade:
  assumes "2 powi e \<le> \<bar>x\<bar>" "\<bar>x\<bar> < 2 powi (e + 1)" "- 1022 \<le> e"
  shows "quantum_exp x = e - 52"
proof -
  define n where "n = \<lfloor>\<bar>x\<bar> * 2 ^ 1074\<rfloor>"
  have e0: "0 \<le> e + 1074" using assms by simp
  have "2 powi e * 2 powi 1074 \<le> \<bar>x\<bar> * 2 powi 1074"
    using assms by (intro mult_right_mono) simp_all
  then have "2 powi (e + 1074) \<le> \<bar>x\<bar> * 2 ^ 1074"
    by (simp add: power_int_add)
  then have "real_of_int (2 ^ nat (e + 1074)) \<le> \<bar>x\<bar> * 2 ^ 1074"
    using e0 by (simp add: power_int_nonneg_exp)
  then have lo: "2 ^ nat (e + 1074) \<le> n"
    unfolding n_def by (simp add: le_floor_iff)
  have "\<bar>x\<bar> * 2 powi 1074 < 2 powi (e + 1) * 2 powi 1074"
    using assms by (intro mult_strict_right_mono) simp_all
  then have "\<bar>x\<bar> * 2 ^ 1074 < 2 powi (e + 1075)"
    by (simp add: power_int_add)
  then have "\<bar>x\<bar> * 2 ^ 1074 < real_of_int (2 ^ nat (e + 1075))"
    using e0 by (simp add: power_int_nonneg_exp)
  then have hi: "n < 2 ^ nat (e + 1075)"
    unfolding n_def by (simp add: floor_less_iff)
  from hi have "bitlen n \<le> e + 1075"
    using e0 by (simp add: bitlen_le_iff_power)
  moreover from lo have "\<not> bitlen n \<le> e + 1074"
    using e0 by (simp add: bitlen_le_iff_power)
  ultimately have "bitlen n = e + 1075" by simp
  then show ?thesis
    using assms by (simp add: quantum_exp_def n_def)
qed

lemma fl_binade:
  assumes "2 powi e \<le> \<bar>x\<bar>" "\<bar>x\<bar> < 2 powi (e + 1)" "- 1022 \<le> e"
  shows "fl x = of_int (rne (x / 2 powi (e - 52))) * 2 powi (e - 52)"
  using quantum_exp_binade [OF assms] by (simp add: fl_def)

lemma pw: "(2::real) powi (- 58) = 1 / 2 ^ 58" "(2::real) powi (- 6) = 1 / 2 ^ 6"
  "(2::real) powi (- 5) = 1 / 2 ^ 5" "(2::real) powi (- 53) = 1 / 2 ^ 53" "(2::real) powi (- 1) = 1 / 2"
  "(2::real) powi 0 = 1"
  by (simp_all add: power_int_minus field_simps)

lemma fl_1_49: "fl (1 / 49) = 5882252574524729 / 288230376151711744"
proof -
  have "fl (1 / 49) = of_int (rne ((1 / 49) / 2 powi (- 6 - 52))) * 2 powi (- 6 - 52)"
    by (rule fl_binade) (simp_all add: pw)
  also have "(1 / 49) / 2 powi (- 6 - 52) = (2 ^ 58 / 49 :: real)"
    by (simp add: pw)
  also have "rne (2 ^ 58 / 49) = 5882252574524729"
    by (simp add: rne_def)
  finally show ?thesis by (simp add: pw)
qed

lemma fl_49_inv:
  "fl (288230376151711721 / 288230376151711744) = 9007199254740991 / 9007199254740992"
proof -
  have "fl (288230376151711721 / 288230376151711744)
      = of_int (rne ((288230376151711721 / 288230376151711744) / 2 powi (- 1 - 52)))
          * 2 powi (- 1 - 52)"
    by (rule fl_binade) (simp_all add: pw)
  also have "(288230376151711721 / 288230376151711744) / 2 powi (- 1 - 52)
      = (288230376151711721 / 32 :: real)"
    by (simp add: pw)
  also have "rne (288230376151711721 / 32) = 9007199254740991"
    by (simp add: rne_def)
  finally show ?thesis by (simp add: pw)
qed

section \<open>Properties of the doubles\<close>

lemma fl_abs_error: "\<bar>fl x\<bar> \<le> \<bar>x\<bar> + (2 powi (- 1075) + \<bar>x\<bar> * 2 powi (- 53))"
  using fl_error [of x] by linarith

lemma rne_minus: "rne (- y) = - rne y"
proof -
  consider "y = of_int \<lfloor>y\<rfloor>" | "y \<noteq> of_int \<lfloor>y\<rfloor>" by blast
  then show ?thesis
  proof cases
    case 1
    then obtain k where "y = of_int k" by metis
    then show ?thesis using rne_of_int [of "- k"] by simp
  next
    case 2
    then have f: "\<lfloor>- y\<rfloor> = - \<lfloor>y\<rfloor> - 1"
      by (metis ceiling_altdef ceiling_def minus_diff_eq minus_minus diff_minus_eq_add
          add.commute uminus_add_conv_diff Ints_of_int of_int_floor_cancel)
    show ?thesis
      unfolding rne_def Let_def f using 2 by (auto; linarith?)
  qed
qed

lemma quantum_exp_minus: "quantum_exp (- x) = quantum_exp x"
  by (simp add: quantum_exp_def)

lemma fl_minus: "fl (- x) = - fl x"
  by (simp add: fl_def quantum_exp_minus rne_minus)

text \<open>A rounded value below \<open>2\<^sup>1\<^sup>0\<^sup>2\<^sup>4\<close> in magnitude is a finite double.\<close>

lemma round_double_Finite: "\<bar>fl x\<bar> < 2 ^ 1024 \<Longrightarrow> round_double x = Finite (fl x)"
  by (simp only: round_double_def Let_def not_le [symmetric] if_False)

lemma fl_below:
  assumes "\<bar>x\<bar> \<le> 2 ^ 1023"
  shows "\<bar>fl x\<bar> < 2 ^ 1024"
proof -
  define B :: real where "B = 2 ^ 1023"
  have B: "1 \<le> B" "2 ^ 1024 = 2 * B" by (simp_all add: B_def)
  have "(2::real) powi (- 1075) \<le> 2 powi (- 1)" by (rule power_int_increasing) simp_all
  then have t: "(2::real) powi (- 1075) \<le> 1 / 2" by (simp add: power_int_minus)
  have "(2::real) powi (- 53) \<le> 2 powi (- 2)" by (rule power_int_increasing) simp_all
  then have u: "(2::real) powi (- 53) \<le> 1 / 4" by (simp add: power_int_minus)
  have "\<bar>x\<bar> * 2 powi (- 53) \<le> B * (1 / 4)"
    using assms u unfolding B_def [symmetric] by (intro mult_mono) simp_all
  then have "\<bar>fl x\<bar> \<le> B + (1 / 2 + B / 4)"
    using fl_abs_error [of x] t assms unfolding B_def [symmetric] by linarith
  also have "\<dots> < 2 * B" using B(1) by linarith
  finally show ?thesis unfolding B(2) .
qed

lemma round_double_small: "\<bar>x\<bar> \<le> 2 ^ 1023 \<Longrightarrow> round_double x = Finite (fl x)"
  by (rule round_double_Finite) (rule fl_below)

lemma le_pow_1023: "\<bar>x\<bar> \<le> 2 ^ 53 \<Longrightarrow> \<bar>x\<bar> \<le> (2::real) ^ 1023"
proof -
  have "(2::real) ^ 53 \<le> 2 ^ 1023" by (rule power_increasing) simp_all
  then show "\<bar>x\<bar> \<le> 2 ^ 53 \<Longrightarrow> \<bar>x\<bar> \<le> (2::real) ^ 1023" by linarith
qed

lemma round_double_unit: "\<bar>x\<bar> \<le> 2 ^ 53 \<Longrightarrow> round_double x = Finite (fl x)"
  by (rule round_double_small) (rule le_pow_1023)

lemma round_double_0 [simp]: "round_double 0 = Finite 0"
  using round_double_small [of 0] by simp

lemma round_double_rep:
  "fl x = x \<Longrightarrow> \<bar>x\<bar> \<le> 2 ^ 1023 \<Longrightarrow> round_double x = Finite x"
  using round_double_small [of x] by simp

lemma round_double_of_int:
  assumes "\<bar>k\<bar> < 2 ^ 53"
  shows "round_double (of_int k) = Finite (of_int k)"
proof -
  from assms have "\<bar>real_of_int k\<bar> \<le> real_of_int (2 ^ 53)"
    unfolding of_int_abs [symmetric] by (intro of_int_le_iff [THEN iffD2]) simp
  then have "\<bar>real_of_int k\<bar> \<le> 2 ^ 53" by simp
  then have "\<bar>real_of_int k\<bar> \<le> 2 ^ 1023" by (rule le_pow_1023)
  then show ?thesis using fl_of_int [OF assms] by (intro round_double_rep)
qed

lemma round_double_numeral:
  "numeral n < (2::int) ^ 53 \<Longrightarrow> round_double (numeral n) = Finite (numeral n)"
  using round_double_of_int [of "numeral n"] by simp

lemma round_double_neg_numeral:
  "numeral n < (2::int) ^ 53 \<Longrightarrow> round_double (- numeral n) = Finite (- numeral n)"
  using round_double_of_int [of "- numeral n"] by simp

lemma round_double_1 [simp]: "round_double 1 = Finite 1"
  using round_double_of_int [of 1] by simp

lemmas round_evals = round_double_numeral round_double_neg_numeral

text \<open>A value of \<open>2\<^sup>1\<^sup>0\<^sup>2\<^sup>5\<close> or more overflows.\<close>

lemma round_double_overflow:
  assumes "2 ^ 1025 \<le> x"
  shows "round_double x = PInf"
proof -
  define B :: real where "B = 2 ^ 1024"
  have B: "1 \<le> B" "2 ^ 1025 = 2 * B" by (simp_all add: B_def)
  have x: "2 * B \<le> x" using assms unfolding B(2) .
  have "(2::real) powi (- 1075) \<le> 2 powi (- 1)" by (rule power_int_increasing) simp_all
  then have t: "(2::real) powi (- 1075) \<le> 1 / 2" by (simp add: power_int_minus)
  have "(2::real) powi (- 53) \<le> 2 powi (- 2)" by (rule power_int_increasing) simp_all
  then have u: "(2::real) powi (- 53) \<le> 1 / 4" by (simp add: power_int_minus)
  have "\<bar>x\<bar> * 2 powi (- 53) \<le> \<bar>x\<bar> * (1 / 4)"
    using u by (intro mult_left_mono) simp_all
  then have "x - (1 / 2 + x / 4) \<le> fl x"
    using fl_error [of x] t x B(1) by (simp add: abs_le_iff)
  then have "B \<le> fl x" using x B(1) by linarith
  then have "2 ^ 1024 \<le> \<bar>fl x\<bar>" "0 < fl x" using B(1) unfolding B_def by linarith+
  then show ?thesis by (simp only: round_double_def Let_def if_True)
qed

lemma dmul_commute: "dmul a b = dmul b a"
  by (cases a; cases b) (simp_all add: mult.commute eq_commute)

lemma dmul_dneg_swap: "dmul (dneg a) b = dmul (dneg b) a"
  by (cases a; cases b) (auto simp add: mult.commute)

section \<open>Reading faces and lines\<close>

lemmas scan_defs = sscanf_c_lf_lf_lf_def scan_lf_def scan_dec_def scan_hex_def scan_sign_def
  isspace_def isdigit_def isxdigit_def tolower_def xdigit_value_def hex_value_def
  scan_fraction_def scan_exponent_def digits_value_def sscanf_d_def strtol_def int_of_long_def

lemmas parse_defs = Parser_def getlines_def parse_line_def VertexParser_def EdgesParser_def
  Normalize_def max_abs_loop_def kNormalizationThreshold_def Let_def

lemma drop_suffix_iff:
  "n \<le> length p \<Longrightarrow> length s = n \<Longrightarrow> (drop (length p - n) p = s) = suffix s p"
  by (metis append_take_drop_id same_append_eq suffix_drop suffix_take)

lemma IsValidObjExtension_iff:
  "IsValidObjExtension p \<longleftrightarrow> suffix ''.obj'' p \<and> 5 \<le> length p"
proof (cases "5 \<le> length p")
  case True
  then have "take 4 (drop (length p - 4) p) = drop (length p - 4) p" by simp
  moreover have "(drop (length p - 4) p = ''.obj'') = suffix ''.obj'' p"
    using True by (intro drop_suffix_iff) simp_all
  ultimately show ?thesis using True
    by (simp add: IsValidObjExtension_def kMinObjFilenameLength_def)
next
  case False
  then show ?thesis by (simp add: IsValidObjExtension_def kMinObjFilenameLength_def)
qed

lemma sscanf_d_empty: "sscanf_d [] = None"
  by (simp add: sscanf_d_def scan_sign_def)

lemma face_indices_loop_eq:
  "face_indices_loop tokens acc =
     acc @ map (\<lambda>i. i - 1) (filter (\<lambda>i. 0 < i) (List.map_filter sscanf_d tokens))"
proof (induction tokens arbitrary: acc)
  case Nil
  then show ?case by (simp add: List.map_filter_simps)
next
  case (Cons t ts)
  show ?case
    using sscanf_d_empty
    by (cases "sscanf_d t") (auto simp add: Cons.IH List.map_filter_simps)
qed

lemma fold_append_concat:
  "fold (\<lambda>i acc. acc @ f i) is vi = vi @ concat (map f is)"
  by (induction "is" arbitrary: vi) simp_all

lemma face_edges_cycle:
  "face_edges fi vi = vi @ concat (map (\<lambda>(a, b). [a, b]) (zip fi (rotate1 fi)))"
proof -
  have "map (\<lambda>i. [fi ! i, fi ! ((i + 1) mod length fi)]) [0..<length fi]
        = map (\<lambda>(a, b). [a, b]) (zip fi (rotate1 fi))"
    by (rule nth_equalityI) (simp_all add: nth_rotate1)
  then show ?thesis
    unfolding face_edges_def fold_append_concat by simp
qed

lemma length_cycle_pairs:
  "length (concat (map (\<lambda>(a, b). [a, b]) (zip fi (rotate1 fi)))) = 2 * length fi"
  by (simp add: length_concat comp_def case_prod_unfold sum_list_triv)

lemma parse_loop_error: "error_code m \<noteq> kNoError \<Longrightarrow> parse_loop ls m = (m, ls)"
  by (cases ls) simp_all

lemma parse_loop_append:
  "error_code (fst (parse_loop pre m)) \<noteq> kNoError \<Longrightarrow>
   parse_loop (pre @ rest) m = (fst (parse_loop pre m), snd (parse_loop pre m) @ rest)"
proof (induction pre arbitrary: m)
  case Nil
  then show ?case by (simp add: parse_loop_error)
next
  case (Cons l pre)
  then show ?case by (cases "error_code m = kNoError") simp_all
qed


section \<open>Reading vertices\<close>

lemma takeWhile_stop:
  "\<not> P c \<Longrightarrow> takeWhile P (xs @ c # ys) = takeWhile P xs"
  by (induction xs) simp_all

lemma dropWhile_stop:
  "\<not> P c \<Longrightarrow> dropWhile P (xs @ c # ys) = dropWhile P xs @ c # ys"
  by (induction xs) simp_all

lemma space_not_digit: "\<not> isdigit CHR '' ''" "\<not> isxdigit CHR '' ''"
  by (simp_all add: isdigit_def isxdigit_def tolower_def)

lemma tolower_space: "tolower CHR '' '' = 32"
  by (simp add: tolower_def)

lemma match_ci_space:
  "\<forall>x \<in> set w. (of_char x :: nat) \<noteq> 32 \<Longrightarrow>
   match_ci w (a @ CHR '' '' # e) = map_option (\<lambda>r. r @ CHR '' '' # e) (match_ci w a)"
proof (induction w arbitrary: a)
  case Nil
  then show ?case by simp
next
  case (Cons x w)
  then show ?case by (cases a) (auto simp add: tolower_space)
qed

lemma scan_sign_space:
  "scan_sign (a @ CHR '' '' # e) = (fst (scan_sign a), snd (scan_sign a) @ CHR '' '' # e)"
  by (cases a) (simp_all add: scan_sign_def)

lemma scan_fraction_space:
  "\<not> P CHR '' '' \<Longrightarrow>
   scan_fraction P (a @ CHR '' '' # e) = (fst (scan_fraction P a), snd (scan_fraction P a) @ CHR '' '' # e)"
  by (cases a) (simp_all add: scan_fraction_def takeWhile_stop dropWhile_stop)

lemma scan_exponent_space:
  "(of_char c :: nat) \<noteq> 32 \<Longrightarrow>
   scan_exponent c (a @ CHR '' '' # e) = (fst (scan_exponent c a), snd (scan_exponent c a) @ CHR '' '' # e)"
  by (cases a)
    (simp_all add: scan_exponent_def scan_sign_space case_prod_unfold Let_def
      takeWhile_stop dropWhile_stop space_not_digit tolower_space)

lemma take1_space:
  "take 1 (a @ CHR '' '' # e) = ''.'' \<longleftrightarrow> take 1 a = ''.''"
  by (cases a) simp_all

lemma scan_hex_point:
  "take 1 (dropWhile isxdigit (a @ CHR '' '' # e)) = ''.'' \<longleftrightarrow>
   take 1 (dropWhile isxdigit a) = ''.''"
  by (simp only: dropWhile_stop [of isxdigit, OF space_not_digit(2)] take1_space)

lemma scan_dec_space:
  assumes "scan_dec neg a = Some (x, r)"
  shows "scan_dec neg (a @ CHR '' '' # e) = Some (x, r @ CHR '' '' # e)"
  using assms unfolding scan_dec_def
  by (simp add: scan_fraction_space scan_exponent_space case_prod_unfold Let_def
      takeWhile_stop dropWhile_stop space_not_digit split: if_splits)

lemma scan_hex_space:
  assumes "scan_hex neg a = Some (x, r)"
  shows "scan_hex neg (a @ CHR '' '' # e) = Some (x, r @ CHR '' '' # e)"
proof -
  define p where "p \<longleftrightarrow> take 1 (dropWhile isxdigit a) = ''.''"
  have p: "take 1 (dropWhile isxdigit (a @ CHR '' '' # e)) = ''.'' \<longleftrightarrow> p"
    unfolding p_def by (rule scan_hex_point)
  show ?thesis
    using assms unfolding scan_hex_def p p_def [symmetric]
    by (auto simp add: scan_fraction_space scan_exponent_space case_prod_unfold Let_def
        takeWhile_stop dropWhile_stop space_not_digit split: if_splits)
qed

lemma scan_lf_empty: "scan_lf [] = None"
  by (simp add: scan_lf_def scan_sign_def scan_dec_def scan_fraction_def)

lemma scan_lf_skip: "scan_lf (dropWhile isspace s) = scan_lf s"
  by (simp add: scan_lf_def)

lemma scan_lf_space:
  assumes "scan_lf s = Some (x, r)"
  shows "scan_lf (s @ CHR '' '' # e) = Some (x, r @ CHR '' '' # e)"
proof -
  have ne: "dropWhile isspace s \<noteq> []"
  proof
    assume "dropWhile isspace s = []"
    then have "scan_lf s = scan_lf []" using scan_lf_skip [of s] by (simp only:)
    with assms show False by (simp add: scan_lf_empty)
  qed
  then have d: "dropWhile isspace (s @ CHR '' '' # e) = dropWhile isspace s @ CHR '' '' # e"
    by (auto simp add: dropWhile_append1 dropWhile_eq_Nil_conv)
  define neg where "neg = fst (scan_sign (dropWhile isspace s))"
  define a where "a = snd (scan_sign (dropWhile isspace s))"
  have s1: "scan_sign (dropWhile isspace s) = (neg, a)" by (simp add: neg_def a_def)
  have s2: "scan_sign (dropWhile isspace s @ CHR '' '' # e) = (neg, a @ CHR '' '' # e)"
    by (simp add: scan_sign_space neg_def a_def)
  show ?thesis
    using assms unfolding scan_lf_def d s1 s2
    by (auto simp add: match_ci_space split: option.splits
        dest: scan_dec_space [of neg a x r e] scan_hex_space [of neg _ x r e])
qed

lemma VertexParser_eq:
  "VertexParser line m =
     (case line of
        [] \<Rightarrow> m\<lparr>error_code := kIncorrectData\<rparr>
      | c # t \<Rightarrow>
          (case scan_lf t of
             None \<Rightarrow> m\<lparr>error_code := kIncorrectData\<rparr>
           | Some (x, r1) \<Rightarrow>
               (case scan_lf r1 of
                  None \<Rightarrow> m\<lparr>error_code := kIncorrectData\<rparr>
                | Some (y, r2) \<Rightarrow>
                    (case scan_lf r2 of
                       None \<Rightarrow> m\<lparr>error_code := kIncorrectData\<rparr>
                     | Some (z, r3) \<Rightarrow>
                         if c = CHR ''v'' then m\<lparr>vertex_coord := vertex_coord m @ [x, y, z]\<rparr>
                         else m\<lparr>error_code := kIncorrectData\<rparr>))))"
  by (simp add: VertexParser_def sscanf_c_lf_lf_lf_def scan_lf_skip
      split: list.splits option.splits prod.splits)

lemma append_coords_neq_error:
  "m\<lparr>error_code := e\<rparr> \<noteq> m\<lparr>vertex_coord := vertex_coord m @ [x, y, z]\<rparr>"
proof
  assume "m\<lparr>error_code := e\<rparr> = m\<lparr>vertex_coord := vertex_coord m @ [x, y, z]\<rparr>"
  then have "vertex_coord (m\<lparr>error_code := e\<rparr>)
      = vertex_coord (m\<lparr>vertex_coord := vertex_coord m @ [x, y, z]\<rparr>)"
    by (rule arg_cong)
  then show False by simp
qed

lemma VertexParser_accept_iff:
  "VertexParser line m = m\<lparr>vertex_coord := vertex_coord m @ [x, y, z]\<rparr> \<longleftrightarrow>
     (\<exists>t r1 r2 r3. line = CHR ''v'' # t \<and> scan_lf t = Some (x, r1)
        \<and> scan_lf r1 = Some (y, r2) \<and> scan_lf r2 = Some (z, r3))"
proof
  assume a: "VertexParser line m = m\<lparr>vertex_coord := vertex_coord m @ [x, y, z]\<rparr>"
  have eq: "x' = x \<and> y' = y \<and> z' = z"
    if "m\<lparr>vertex_coord := vertex_coord m @ [x', y', z']\<rparr>
        = m\<lparr>vertex_coord := vertex_coord m @ [x, y, z]\<rparr>" for x' y' z'
  proof -
    from that have "vertex_coord (m\<lparr>vertex_coord := vertex_coord m @ [x', y', z']\<rparr>)
        = vertex_coord (m\<lparr>vertex_coord := vertex_coord m @ [x, y, z]\<rparr>)"
      by (rule arg_cong)
    then show ?thesis by simp
  qed
  from a show "\<exists>t r1 r2 r3. line = CHR ''v'' # t \<and> scan_lf t = Some (x, r1)
        \<and> scan_lf r1 = Some (y, r2) \<and> scan_lf r2 = Some (z, r3)"
    unfolding VertexParser_eq
    by (auto split: list.splits option.splits prod.splits if_splits
        simp add: append_coords_neq_error dest: eq)
next
  assume "\<exists>t r1 r2 r3. line = CHR ''v'' # t \<and> scan_lf t = Some (x, r1)
        \<and> scan_lf r1 = Some (y, r2) \<and> scan_lf r2 = Some (z, r3)"
  then show "VertexParser line m = m\<lparr>vertex_coord := vertex_coord m @ [x, y, z]\<rparr>"
    unfolding VertexParser_eq by auto
qed

lemma VertexParser_reject:
  assumes "\<not> (\<exists>t x r1 y r2 z r3. line = CHR ''v'' # t \<and> scan_lf t = Some (x, r1)
        \<and> scan_lf r1 = Some (y, r2) \<and> scan_lf r2 = Some (z, r3))"
  shows "VertexParser line m = m\<lparr>error_code := kIncorrectData\<rparr>"
  using assms unfolding VertexParser_eq
  by (auto split: list.splits option.splits prod.splits)

lemma VertexParser_trailing:
  assumes "VertexParser line m = m\<lparr>vertex_coord := vertex_coord m @ [x, y, z]\<rparr>"
  shows "VertexParser (line @ CHR '' '' # extra) m
     = m\<lparr>vertex_coord := vertex_coord m @ [x, y, z]\<rparr>"
proof -
  from assms obtain t r1 r2 r3 where l: "line = CHR ''v'' # t" and s: "scan_lf t = Some (x, r1)"
    "scan_lf r1 = Some (y, r2)" "scan_lf r2 = Some (z, r3)"
    unfolding VertexParser_accept_iff by blast
  have "line @ CHR '' '' # extra = CHR ''v'' # (t @ CHR '' '' # extra)" using l by simp
  moreover note scan_lf_space [OF s(1), of extra] scan_lf_space [OF s(2), of extra]
    scan_lf_space [OF s(3), of extra]
  ultimately show ?thesis unfolding VertexParser_accept_iff by blast
qed

text \<open>A decimal number with an exponent of 309 or more is too large for a double.\<close>

lemma round_double_pow10:
  assumes "1 \<le> n" "309 \<le> e"
  shows "round_double (real n * 10 powi e) = PInf"
proof (rule round_double_overflow)
  have "(2::real) ^ 1025 \<le> 10 ^ 309" by simp
  also have "\<dots> = 10 powi 309" by simp
  also have "\<dots> \<le> 10 powi e" using assms(2) by (intro power_int_increasing) simp_all
  also have "\<dots> = 1 * 10 powi e" by simp
  also have "\<dots> \<le> real n * 10 powi e"
    using assms(1) by (intro mult_right_mono) simp_all
  finally show "2 ^ 1025 \<le> real n * 10 powi e" .
qed

lemma scan_lf_overflow: "scan_lf '' 1e999 2 3'' = Some (PInf, '' 2 3'')"
proof -
  have "scan_lf '' 1e999 2 3'' = Some (round_double (real 1 * 10 powi 999), '' 2 3'')"
    by (simp add: scan_defs del: power_int_numeral of_nat_1 mult_1 mult_1_left)
  also have "round_double (real 1 * 10 powi 999) = PInf"
    by (rule round_double_pow10) simp_all
  finally show ?thesis .
qed

lemma scan_lf_examples:
  "scan_lf '' nan -inf 0x10'' = Some (NaN, '' -inf 0x10'')"
  "scan_lf '' -inf 0x10'' = Some (NInf, '' 0x10'')"
  "scan_lf '' 0x10'' = Some (Finite 16, [])"
  "scan_lf '' 1 2 0x'' = Some (Finite 1, '' 2 0x'')"
  "scan_lf '' 2 0x'' = Some (Finite 2, '' 0x'')"
  "scan_lf '' 0x'' = None"
  "scan_lf '' 1 2 3'' = Some (Finite 1, '' 2 3'')"
  "scan_lf '' 2 3'' = Some (Finite 2, '' 3'')"
  "scan_lf '' 3'' = Some (Finite 3, [])"
  "scan_lf '' 1 2'' = Some (Finite 1, '' 2'')"
  "scan_lf '' 2'' = Some (Finite 2, [])"
  "scan_lf '' invalid data'' = None"
  by (simp_all add: scan_defs round_evals)

text \<open>
  Claim C2, as the code has it. A vertex line is accepted exactly when it is the
  character \<^verbatim>\<open>v\<close> followed by three items that \<^verbatim>\<open>sscanf\<close> converts with \<^verbatim>\<open>%lf\<close>, each
  after optional white space: then the three values are appended to the coordinates and
  the error code is untouched. Any other line sets \<^verbatim>\<open>kIncorrectData\<close> and appends
  nothing. What follows the third item is not read: an accepted line stays accepted,
  with the same values, when a space and any text are appended to it. The items are
  decimal or hexadecimal numbers, infinities and NaN: \<^verbatim>\<open>v invalid data\<close> and \<^verbatim>\<open>v 1 2 0x\<close>
  are rejected, \<^verbatim>\<open>v nan -inf 0x10\<close> is accepted, and \<^verbatim>\<open>v 1e999 2 3\<close> is accepted with an
  infinity for the number that is too large for a double.
\<close>

theorem VertexParser_reads_three_leading_numbers:
  "(line = CHR ''v'' # t \<and> scan_lf t = Some (x, r1) \<and> scan_lf r1 = Some (y, r2)
      \<and> scan_lf r2 = Some (z, r3) \<longrightarrow>
      VertexParser line m = m\<lparr>vertex_coord := vertex_coord m @ [x, y, z]\<rparr>)
   \<and> (\<not> (\<exists>t x r1 y r2 z r3. line = CHR ''v'' # t \<and> scan_lf t = Some (x, r1)
          \<and> scan_lf r1 = Some (y, r2) \<and> scan_lf r2 = Some (z, r3)) \<longrightarrow>
      VertexParser line m = m\<lparr>error_code := kIncorrectData\<rparr>)
   \<and> (VertexParser line m = m\<lparr>vertex_coord := vertex_coord m @ [x, y, z]\<rparr> \<longrightarrow>
      VertexParser (line @ CHR '' '' # extra) m
        = m\<lparr>vertex_coord := vertex_coord m @ [x, y, z]\<rparr>)
   \<and> VertexParser ''v invalid data'' m = m\<lparr>error_code := kIncorrectData\<rparr>
   \<and> VertexParser ''v 1 2 0x'' m = m\<lparr>error_code := kIncorrectData\<rparr>
   \<and> VertexParser ''v nan -inf 0x10'' m
        = m\<lparr>vertex_coord := vertex_coord m @ [NaN, NInf, Finite 16]\<rparr>
   \<and> VertexParser ''v 1e999 2 3'' m
        = m\<lparr>vertex_coord := vertex_coord m @ [PInf, Finite 2, Finite 3]\<rparr>"
proof (intro conjI impI)
  show "VertexParser line m = m\<lparr>vertex_coord := vertex_coord m @ [x, y, z]\<rparr>"
    if "line = CHR ''v'' # t \<and> scan_lf t = Some (x, r1) \<and> scan_lf r1 = Some (y, r2)
      \<and> scan_lf r2 = Some (z, r3)"
    using that unfolding VertexParser_accept_iff by blast
  show "VertexParser line m = m\<lparr>error_code := kIncorrectData\<rparr>"
    if "\<not> (\<exists>t x r1 y r2 z r3. line = CHR ''v'' # t \<and> scan_lf t = Some (x, r1)
          \<and> scan_lf r1 = Some (y, r2) \<and> scan_lf r2 = Some (z, r3))"
    using that by (rule VertexParser_reject)
  show "VertexParser (line @ CHR '' '' # extra) m
        = m\<lparr>vertex_coord := vertex_coord m @ [x, y, z]\<rparr>"
    if "VertexParser line m = m\<lparr>vertex_coord := vertex_coord m @ [x, y, z]\<rparr>"
    using that by (rule VertexParser_trailing)
  show "VertexParser ''v invalid data'' m = m\<lparr>error_code := kIncorrectData\<rparr>"
    by (simp add: VertexParser_eq scan_lf_examples)
  show "VertexParser ''v 1 2 0x'' m = m\<lparr>error_code := kIncorrectData\<rparr>"
    by (simp add: VertexParser_eq scan_lf_examples)
  show "VertexParser ''v nan -inf 0x10'' m
        = m\<lparr>vertex_coord := vertex_coord m @ [NaN, NInf, Finite 16]\<rparr>"
    by (simp add: VertexParser_eq scan_lf_examples)
  show "VertexParser ''v 1e999 2 3'' m
        = m\<lparr>vertex_coord := vertex_coord m @ [PInf, Finite 2, Finite 3]\<rparr>"
    by (simp add: VertexParser_eq scan_lf_examples scan_lf_overflow)
qed

text \<open>
  A vertex line with extra content is accepted: \<^verbatim>\<open>v 1 2 3 4\<close> appends 1, 2, 3 and the
  error code stays \<^verbatim>\<open>kNoError\<close>.
\<close>

theorem VertexParser_accepts_extra_content:
  "parse_line ''v 1 2 3 4''
     \<lparr>filename = ''a.obj'', vertex_coord = [], vertex_index = [],
      error_code = kNoError, strategy = None\<rparr>
   = \<lparr>filename = ''a.obj'', vertex_coord = [Finite 1, Finite 2, Finite 3], vertex_index = [],
      error_code = kNoError, strategy = None\<rparr>"
  by (simp add: parse_line_def VertexParser_def scan_defs round_evals)

theorem VertexParser_reads_three_leading_numbers_witness:
  "VertexParser ''v 1 2 3''
      \<lparr>filename = ''a.obj'', vertex_coord = [], vertex_index = [],
       error_code = kNoError, strategy = None\<rparr>
     = \<lparr>filename = ''a.obj'', vertex_coord = [Finite 1, Finite 2, Finite 3], vertex_index = [],
        error_code = kNoError, strategy = None\<rparr>
   \<and> VertexParser ''v 1 2''
      \<lparr>filename = ''a.obj'', vertex_coord = [], vertex_index = [],
       error_code = kNoError, strategy = None\<rparr>
     = \<lparr>filename = ''a.obj'', vertex_coord = [], vertex_index = [],
        error_code = kIncorrectData, strategy = None\<rparr>
   \<and> VertexParser (''v 1 2 3'' @ CHR '' '' # ''0.5 # red'')
      \<lparr>filename = ''a.obj'', vertex_coord = [], vertex_index = [],
       error_code = kNoError, strategy = None\<rparr>
     = \<lparr>filename = ''a.obj'', vertex_coord = [Finite 1, Finite 2, Finite 3], vertex_index = [],
        error_code = kNoError, strategy = None\<rparr>"
proof -
  define m0 where "m0 = \<lparr>filename = ''a.obj'', vertex_coord = [], vertex_index = [],
       error_code = kNoError, strategy = None\<rparr>"
  note s = scan_lf_examples(7-11)
  have s6: "scan_lf [] = None"
    by (rule scan_lf_empty)
  note T1 = VertexParser_reads_three_leading_numbers
    [of "''v 1 2 3''" "'' 1 2 3''" "Finite 1" "'' 2 3''" "Finite 2" "'' 3''" "Finite 3" "[]" m0
      "''0.5 # red''"]
  note T2 = VertexParser_reads_three_leading_numbers [of "''v 1 2''" _ _ _ _ _ _ _ m0]
  have 1: "VertexParser ''v 1 2 3'' m0
      = m0\<lparr>vertex_coord := vertex_coord m0 @ [Finite 1, Finite 2, Finite 3]\<rparr>"
    using T1 s by simp
  have "\<not> (\<exists>t x r1 y r2 z r3. ''v 1 2'' = CHR ''v'' # t \<and> scan_lf t = Some (x, r1)
          \<and> scan_lf r1 = Some (y, r2) \<and> scan_lf r2 = Some (z, r3))"
    using s s6 by auto
  with T2 have 2: "VertexParser ''v 1 2'' m0 = m0\<lparr>error_code := kIncorrectData\<rparr>"
    by blast
  from T1 1 have 3: "VertexParser (''v 1 2 3'' @ CHR '' '' # ''0.5 # red'') m0
      = m0\<lparr>vertex_coord := vertex_coord m0 @ [Finite 1, Finite 2, Finite 3]\<rparr>"
    by blast
  from 1 2 3 show ?thesis unfolding m0_def by simp
qed

section \<open>Loading a file\<close>

lemma face_edges_subset: "set (face_edges fi vi) \<subseteq> set vi \<union> set fi"
proof -
  have "set (zip fi (rotate1 fi)) \<subseteq> set fi \<times> set fi"
    by (auto dest: set_zip_leftD set_zip_rightD)
  then show ?thesis
    unfolding face_edges_cycle by auto
qed

lemma face_indices_loop_tokens:
  assumes "j \<in> set (face_indices_loop tokens [])"
  shows "0 \<le> j \<and> (\<exists>tok \<in> set tokens. sscanf_d tok = Some (j + 1))"
  using assms by (auto simp add: face_indices_loop_eq List.map_filter_def)

lemma from_face_token_mono:
  "from_face_token ls j \<Longrightarrow> set ls \<subseteq> set ls' \<Longrightarrow> from_face_token ls' j"
  unfolding from_face_token_def by blast

lemma EdgesParser_index:
  assumes "j \<in> set (vertex_index (EdgesParser rest m))"
  shows "j \<in> set (vertex_index m) \<or>
     (0 \<le> j \<and> (\<exists>tok \<in> set (getlines CHR '' '' rest). sscanf_d tok = Some (j + 1)))"
proof (cases "2 \<le> length (face_indices_loop (getlines CHR '' '' rest) [])")
  case True
  with assms have "j \<in> set (face_edges (face_indices_loop (getlines CHR '' '' rest) []) (vertex_index m))"
    by (simp add: EdgesParser_def)
  then have "j \<in> set (vertex_index m) \<or> j \<in> set (face_indices_loop (getlines CHR '' '' rest) [])"
    using face_edges_subset by blast
  then show ?thesis using face_indices_loop_tokens by blast
next
  case False
  with assms show ?thesis by (simp add: EdgesParser_def)
qed

lemma face_line_take2:
  "2 \<le> length line \<Longrightarrow> line ! 0 = CHR ''f'' \<Longrightarrow> line ! 1 = CHR '' '' \<Longrightarrow> take 2 line = ''f ''"
  by (cases line; cases "tl line") auto

lemma parse_line_index:
  assumes "j \<in> set (vertex_index (parse_line line m))"
  shows "j \<in> set (vertex_index m) \<or> from_face_token [line] j"
proof (cases "2 \<le> length line \<and> line ! 0 = CHR ''f'' \<and> line ! 1 = CHR '' ''")
  case True
  then have "line \<noteq> []" by auto
  with True assms have "j \<in> set (vertex_index (EdgesParser (drop 2 line) m))"
    by (simp add: parse_line_def)
  then show ?thesis
    using EdgesParser_index [of j "drop 2 line" m] face_line_take2 True
    by (auto simp add: from_face_token_def)
next
  case False
  with assms have "j \<in> set (vertex_index m)"
    by (auto simp add: parse_line_def VertexParser_def case_prod_unfold Let_def split: if_splits)
  then show ?thesis ..
qed

lemma parse_loop_index:
  "j \<in> set (vertex_index (fst (parse_loop lines m))) \<Longrightarrow>
     j \<in> set (vertex_index m) \<or> from_face_token lines j"
proof (induction lines arbitrary: m)
  case Nil
  then show ?case by simp
next
  case (Cons l ls)
  show ?case
  proof (cases "error_code m = kNoError")
    case True
    with Cons.prems have "j \<in> set (vertex_index (fst (parse_loop ls (parse_line l m))))" by simp
    then have "j \<in> set (vertex_index (parse_line l m)) \<or> from_face_token ls j"
      by (rule Cons.IH)
    then show ?thesis
      using parse_line_index [of j l m] from_face_token_mono [of "[l]" j "l # ls"]
        from_face_token_mono [of ls j "l # ls"] by auto
  next
    case False
    with Cons.prems show ?thesis by simp
  qed
qed

lemma int_of_long_range: "- (2 ^ 31) \<le> int_of_long l \<and> int_of_long l < 2 ^ 31"
proof -
  have "0 \<le> (l + 2 ^ 31) mod 2 ^ 32" "(l + 2 ^ 31) mod 2 ^ 32 < 2 ^ 32"
    by simp_all
  then show ?thesis unfolding int_of_long_def by simp
qed

lemma sscanf_d_range:
  "sscanf_d tok = Some i \<Longrightarrow> - (2 ^ 31) \<le> i \<and> i < 2 ^ 31"
  using int_of_long_range
  by (auto simp add: sscanf_d_def Let_def case_prod_unfold split: if_splits)

lemma from_face_token_range:
  "from_face_token ls j \<Longrightarrow> 0 \<le> j \<and> j < 2 ^ 31 - 1"
  unfolding from_face_token_def using sscanf_d_range by fastforce

lemma Normalize_vertex_index [simp]: "vertex_index (Normalize m) = vertex_index m"
  by (simp add: Normalize_def Let_def)

lemma LoadModel_index:
  assumes "j \<in> set (vertex_index (LoadModel fs path m))"
  shows "\<exists>content. fs path = Some content \<and> from_face_token (getlines (CHR 0x0A) content) j"
proof -
  define m1 where "m1 = SetFileName path m"
  have vi: "vertex_index m1 = []"
    by (simp add: m1_def SetFileName_def ClearData_def Let_def)
  have fn: "error_code m1 = kNoError \<Longrightarrow> filename m1 = path"
    by (auto simp add: m1_def SetFileName_def ClearData_def Let_def split: if_splits)
  from assms have j: "j \<in> set (vertex_index (Parser fs m1))" by (simp add: LoadModel_def m1_def)
  show ?thesis
  proof (cases "error_code m1 = kNoError")
    case False
    with j vi show ?thesis by (simp add: Parser_def)
  next
    case True
    show ?thesis
    proof (cases "fs path")
      case None
      with j vi True fn show ?thesis by (simp add: Parser_def)
    next
      case (Some content)
      with j True fn have "j \<in> set (vertex_index (fst (parse_loop (getlines (CHR 0x0A) content) m1)))"
        by (simp add: Parser_def Let_def split: if_splits)
      with vi Some show ?thesis using parse_loop_index by fastforce
    qed
  qed
qed

text \<open>
  Claim C1, as the code has it. After a load every edge index in the model was written by
  a face line of the file that was read: it is \<open>i - 1\<close> for a token that \<^verbatim>\<open>sscanf\<close> reads
  as an \<^verbatim>\<open>int\<close> \<open>i > 0\<close>, so it lies between 0 and \<open>2\<^sup>3\<^sup>1 - 2\<close>. The parser never compares
  an index with the number of vertices. When every token of every face line of the file
  is read as an \<^verbatim>\<open>int\<close> of at most the vertex count after the load, every edge index is
  below the vertex count.
\<close>

theorem LoadModel_edge_indices_come_from_face_tokens:
  "(\<forall>j \<in> set (vertex_index (LoadModel fs path m)).
      \<exists>content. fs path = Some content \<and> from_face_token (getlines (CHR 0x0A) content) j)
   \<and> (fs path = Some content
        \<and> face_tokens_at_most (getlines (CHR 0x0A) content)
             (int (GetVertexCount (LoadModel fs path m))) \<longrightarrow>
      (\<forall>j \<in> set (vertex_index (LoadModel fs path m)).
         0 \<le> j \<and> j < int (GetVertexCount (LoadModel fs path m))))
   \<and> (\<forall>j \<in> set (vertex_index (LoadModel fs path m)). 0 \<le> j \<and> j < 2 ^ 31 - 1)"
proof -
  have a: "\<forall>j \<in> set (vertex_index (LoadModel fs path m)).
      \<exists>content. fs path = Some content \<and> from_face_token (getlines (CHR 0x0A) content) j"
    using LoadModel_index by blast
  have c: "\<forall>j \<in> set (vertex_index (LoadModel fs path m)). 0 \<le> j \<and> j < 2 ^ 31 - 1"
    using a from_face_token_range by blast
  have b: "fs path = Some content
        \<and> face_tokens_at_most (getlines (CHR 0x0A) content)
             (int (GetVertexCount (LoadModel fs path m))) \<longrightarrow>
      (\<forall>j \<in> set (vertex_index (LoadModel fs path m)).
         0 \<le> j \<and> j < int (GetVertexCount (LoadModel fs path m)))"
  proof (intro impI ballI conjI)
    fix j
    assume h: "fs path = Some content
        \<and> face_tokens_at_most (getlines (CHR 0x0A) content)
             (int (GetVertexCount (LoadModel fs path m)))"
      and j: "j \<in> set (vertex_index (LoadModel fs path m))"
    from j h have f: "from_face_token (getlines (CHR 0x0A) content) j"
      using LoadModel_index by fastforce
    then show "0 \<le> j" by (simp add: from_face_token_def)
    from f h show "j < int (GetVertexCount (LoadModel fs path m))"
      unfolding from_face_token_def face_tokens_at_most_def by fastforce
  qed
  show ?thesis by (rule conjI [OF a conjI [OF b c]])
qed

theorem LoadModel_edge_indices_come_from_face_tokens_witness:
  "list_all (\<lambda>j. 0 \<le> j \<and> j < 4 \<and> j < 2 ^ 31 - 1)
     (vertex_index (LoadModel
        (\<lambda>p. if p = ''quad.obj''
              then Some (''v 0 0 0'' @ [CHR 0x0A] @ ''v 1 0 0'' @ [CHR 0x0A]
                 @ ''v 1 1 0'' @ [CHR 0x0A] @ ''v 0 1 0'' @ [CHR 0x0A]
                 @ ''f 1 2 3 4'' @ [CHR 0x0A])
              else None)
        ''quad.obj''
        \<lparr>filename = [], vertex_coord = [], vertex_index = [],
         error_code = kNoError, strategy = None\<rparr>))"
proof -
  define fs :: file_system where "fs = (\<lambda>p. if p = ''quad.obj''
              then Some (''v 0 0 0'' @ [CHR 0x0A] @ ''v 1 0 0'' @ [CHR 0x0A]
                 @ ''v 1 1 0'' @ [CHR 0x0A] @ ''v 0 1 0'' @ [CHR 0x0A]
                 @ ''f 1 2 3 4'' @ [CHR 0x0A])
              else None)"
  define m0 where "m0 = \<lparr>filename = [], vertex_coord = [], vertex_index = [],
         error_code = kNoError, strategy = None\<rparr>"
  have c: "GetVertexCount (LoadModel fs ''quad.obj'' m0) = 4"
    by (simp add: LoadModel_def SetFileName_def ClearData_def IsValidObjExtension_def
        kMinObjFilenameLength_def fs_def m0_def parse_defs scan_defs face_edges_cycle
        GetVertexCount_def round_evals)
  have t: "face_tokens_at_most
      (getlines (CHR 0x0A) (''v 0 0 0'' @ [CHR 0x0A] @ ''v 1 0 0'' @ [CHR 0x0A]
                 @ ''v 1 1 0'' @ [CHR 0x0A] @ ''v 0 1 0'' @ [CHR 0x0A]
                 @ ''f 1 2 3 4'' @ [CHR 0x0A])) 4"
    by (simp add: face_tokens_at_most_def getlines_def scan_defs)
  have h: "fs ''quad.obj'' = Some (''v 0 0 0'' @ [CHR 0x0A] @ ''v 1 0 0'' @ [CHR 0x0A]
                 @ ''v 1 1 0'' @ [CHR 0x0A] @ ''v 0 1 0'' @ [CHR 0x0A]
                 @ ''f 1 2 3 4'' @ [CHR 0x0A])
      \<and> face_tokens_at_most
          (getlines (CHR 0x0A) (''v 0 0 0'' @ [CHR 0x0A] @ ''v 1 0 0'' @ [CHR 0x0A]
                 @ ''v 1 1 0'' @ [CHR 0x0A] @ ''v 0 1 0'' @ [CHR 0x0A]
                 @ ''f 1 2 3 4'' @ [CHR 0x0A]))
          (int (GetVertexCount (LoadModel fs ''quad.obj'' m0)))"
    using t unfolding c by (simp add: fs_def)
  note T = LoadModel_edge_indices_come_from_face_tokens
      [of fs "''quad.obj''" m0 "''v 0 0 0'' @ [CHR 0x0A] @ ''v 1 0 0'' @ [CHR 0x0A]
                 @ ''v 1 1 0'' @ [CHR 0x0A] @ ''v 0 1 0'' @ [CHR 0x0A]
                 @ ''f 1 2 3 4'' @ [CHR 0x0A]"]
  have a: "\<forall>j \<in> set (vertex_index (LoadModel fs ''quad.obj'' m0)).
         0 \<le> j \<and> j < int (GetVertexCount (LoadModel fs ''quad.obj'' m0))"
    using T h by blast
  have b: "\<forall>j \<in> set (vertex_index (LoadModel fs ''quad.obj'' m0)). 0 \<le> j \<and> j < 2 ^ 31 - 1"
    using T by blast
  have "list_all (\<lambda>j. 0 \<le> j \<and> j < 4 \<and> j < 2 ^ 31 - 1)
      (vertex_index (LoadModel fs ''quad.obj'' m0))"
    using a b unfolding c list_all_iff by auto
  then show ?thesis
    unfolding fs_def m0_def .
qed

text \<open>
  A file with one vertex and the face \<^verbatim>\<open>f 5 6\<close> is loaded without error, with the edge
  indices 4, 5, 5, 4 and a vertex count of 1. So is the file with one vertex and the face
  \<^verbatim>\<open>f -4294967295 -4294967294\<close>, whose tokens are read as the \<^verbatim>\<open>int\<close> values 1 and 2:
  the edge indices are 0, 1, 1, 0.
\<close>

theorem LoadModel_stores_index_beyond_vertex_count:
  "LoadModel (\<lambda>p. if p = ''bad.obj''
                   then Some (''v 0 0 0'' @ [CHR 0x0A] @ ''f 5 6'' @ [CHR 0x0A]) else None)
     ''bad.obj''
     \<lparr>filename = [], vertex_coord = [], vertex_index = [],
      error_code = kNoError, strategy = None\<rparr>
   = \<lparr>filename = ''bad.obj'', vertex_coord = [Finite 0, Finite 0, Finite 0],
      vertex_index = [4, 5, 5, 4], error_code = kNoError, strategy = None\<rparr>
   \<and> GetVertexCount \<lparr>filename = ''bad.obj'', vertex_coord = [Finite 0, Finite 0, Finite 0],
        vertex_index = [4, 5, 5, 4], error_code = kNoError, strategy = None\<rparr> = 1
   \<and> \<not> (\<forall>j \<in> set [4, 5, 5, 4 :: int]. j < 1)
   \<and> LoadModel (\<lambda>p. if p = ''bad.obj''
                   then Some (''v 0 0 0'' @ [CHR 0x0A] @ ''f -4294967295 -4294967294'' @ [CHR 0x0A])
                   else None)
     ''bad.obj''
     \<lparr>filename = [], vertex_coord = [], vertex_index = [],
      error_code = kNoError, strategy = None\<rparr>
   = \<lparr>filename = ''bad.obj'', vertex_coord = [Finite 0, Finite 0, Finite 0],
      vertex_index = [0, 1, 1, 0], error_code = kNoError, strategy = None\<rparr>"
  by (simp add: LoadModel_def SetFileName_def ClearData_def IsValidObjExtension_def
      kMinObjFilenameLength_def parse_defs scan_defs face_edges_cycle GetVertexCount_def
      round_evals)



text \<open>
  Claim C4. When the error code is set, \<^verbatim>\<open>Parser\<close> returns the model as it is, whatever
  the file system holds, and the reading loop reads no line. When the error code is set
  after some lines of a file, the lines after them are not read: the loop ends with the
  same model, and those lines are left in the file. \<^verbatim>\<open>SetFileName\<close> with a valid name
  resets the error code, so that \<^verbatim>\<open>Parser\<close> reads again.
\<close>

theorem error_stops_parsing:
  "(error_code m \<noteq> kNoError \<longrightarrow> Parser fs m = m \<and> parse_loop ls m = (m, ls))
   \<and> (error_code (fst (parse_loop pre m0)) \<noteq> kNoError \<longrightarrow>
        parse_loop (pre @ rest) m0 = (fst (parse_loop pre m0), snd (parse_loop pre m0) @ rest))
   \<and> (suffix ''.obj'' p \<and> 5 \<le> length p \<longrightarrow> error_code (SetFileName p m) = kNoError)"
  using parse_loop_append [of pre m0 rest]
  by (simp add: Parser_def parse_loop_error SetFileName_def ClearData_def IsValidObjExtension_iff)

theorem error_stops_parsing_witness:
  "Parser (\<lambda>p. Some ''v 1 2 3'')
      \<lparr>filename = ''a.obj'', vertex_coord = [], vertex_index = [],
       error_code = kIncorrectData, strategy = None\<rparr>
     = \<lparr>filename = ''a.obj'', vertex_coord = [], vertex_index = [],
        error_code = kIncorrectData, strategy = None\<rparr>
   \<and> parse_loop [''v invalid data'', ''v 1 2 3'']
        \<lparr>filename = ''a.obj'', vertex_coord = [], vertex_index = [],
         error_code = kNoError, strategy = None\<rparr>
     = (\<lparr>filename = ''a.obj'', vertex_coord = [], vertex_index = [],
         error_code = kIncorrectData, strategy = None\<rparr>, [''v 1 2 3''])
   \<and> error_code (SetFileName ''b.obj''
        \<lparr>filename = ''a.obj'', vertex_coord = [], vertex_index = [],
         error_code = kIncorrectData, strategy = None\<rparr>) = kNoError"
  using error_stops_parsing
    [of "\<lparr>filename = ''a.obj'', vertex_coord = [], vertex_index = [],
          error_code = kIncorrectData, strategy = None\<rparr>"
      "\<lambda>p. Some ''v 1 2 3''" "[]" "[''v invalid data'']"
      "\<lparr>filename = ''a.obj'', vertex_coord = [], vertex_index = [],
        error_code = kNoError, strategy = None\<rparr>"
      "[''v 1 2 3'']" "''b.obj''"]
  by (simp add: parse_line_def VertexParser_def scan_defs suffix_def)

text \<open>
  Claim C5. With the index list of a face line, \<^verbatim>\<open>EdgesParser_\<close> appends the pairs
  \<open>(f\<^sub>0, f\<^sub>1), (f\<^sub>1, f\<^sub>2), \<dots>, (f\<^sub>n\<^sub>-\<^sub>1, f\<^sub>0)\<close> when the list has at least 2 entries, two
  indices per entry of the list, and nothing when it has 0 or 1. The file with four
  vertices and the face \<^verbatim>\<open>f 1 2 3 4\<close> gives the 8 indices 0 1 1 2 2 3 3 0.
\<close>

theorem face_edges_form_cycle:
  "EdgesParser line m =
     (let fi = face_indices_loop (getlines CHR '' '' line) []
      in if 2 \<le> length fi
         then m\<lparr>vertex_index :=
                  vertex_index m @ concat (map (\<lambda>(a, b). [a, b]) (zip fi (rotate1 fi)))\<rparr>
         else m)
   \<and> length (concat (map (\<lambda>(a, b). [a, b]) (zip fi (rotate1 fi)))) = 2 * length fi
   \<and> Parser (\<lambda>p. if p = ''quad.obj''
                  then Some (''v 0 0 0'' @ [CHR 0x0A] @ ''v 1 0 0'' @ [CHR 0x0A]
                     @ ''v 1 1 0'' @ [CHR 0x0A] @ ''v 0 1 0'' @ [CHR 0x0A]
                     @ ''f 1 2 3 4'' @ [CHR 0x0A])
                  else None)
       \<lparr>filename = ''quad.obj'', vertex_coord = [], vertex_index = [],
        error_code = kNoError, strategy = None\<rparr>
     = \<lparr>filename = ''quad.obj'', vertex_coord = [Finite 0, Finite 0, Finite 0, Finite 1, Finite 0, Finite 0,
          Finite 1, Finite 1, Finite 0, Finite 0, Finite 1, Finite 0],
        vertex_index = [0, 1, 1, 2, 2, 3, 3, 0], error_code = kNoError, strategy = None\<rparr>"
proof -
  have "EdgesParser line m =
     (let fi = face_indices_loop (getlines CHR '' '' line) []
      in if 2 \<le> length fi
         then m\<lparr>vertex_index :=
                  vertex_index m @ concat (map (\<lambda>(a, b). [a, b]) (zip fi (rotate1 fi)))\<rparr>
         else m)"
    by (simp add: EdgesParser_def face_edges_cycle Let_def)
  moreover have "Parser (\<lambda>p. if p = ''quad.obj''
                  then Some (''v 0 0 0'' @ [CHR 0x0A] @ ''v 1 0 0'' @ [CHR 0x0A]
                     @ ''v 1 1 0'' @ [CHR 0x0A] @ ''v 0 1 0'' @ [CHR 0x0A]
                     @ ''f 1 2 3 4'' @ [CHR 0x0A])
                  else None)
       \<lparr>filename = ''quad.obj'', vertex_coord = [], vertex_index = [],
        error_code = kNoError, strategy = None\<rparr>
     = \<lparr>filename = ''quad.obj'', vertex_coord = [Finite 0, Finite 0, Finite 0, Finite 1, Finite 0, Finite 0,
          Finite 1, Finite 1, Finite 0, Finite 0, Finite 1, Finite 0],
        vertex_index = [0, 1, 1, 2, 2, 3, 3, 0], error_code = kNoError, strategy = None\<rparr>"
    by (simp add: parse_defs scan_defs face_edges_cycle round_evals)
  ultimately show ?thesis
    using length_cycle_pairs [of fi] by simp
qed

section \<open>Normalisation\<close>

lemma max_abs_fold_real:
  "fold (\<lambda>c a. if a < \<bar>c\<bar> then \<bar>c\<bar> else a) v a = Max (insert a (abs ` set v))"
  for v :: "real list"
proof (induction v arbitrary: a)
  case Nil
  then show ?case by simp
next
  case (Cons c v)
  have "Max (insert (if a < \<bar>c\<bar> then \<bar>c\<bar> else a) (abs ` set v)) = Max (insert a (insert \<bar>c\<bar> (abs ` set v)))"
    by (cases "abs ` set v = {}") (auto simp add: max_def)
  then show ?case by (simp add: Cons.IH)
qed

lemma max_abs_fold_Finite:
  "fold (\<lambda>coord max_abs_value.
           (let abs_coord = dabs coord
            in if dless max_abs_value abs_coord then abs_coord else max_abs_value))
     (map Finite xs) (Finite a)
   = Finite (fold (\<lambda>c a. if a < \<bar>c\<bar> then \<bar>c\<bar> else a) xs a)"
  by (induction xs arbitrary: a) (simp_all add: Let_def)

lemma max_abs_loop_Max:
  assumes "xs \<noteq> []"
  shows "max_abs_loop (map Finite xs) = Finite (Max (abs ` set xs))"
proof -
  obtain c where c: "c \<in> set xs" using assms by (cases xs) auto
  have "0 \<le> \<bar>c\<bar>" by simp
  also have "\<bar>c\<bar> \<le> Max (abs ` set xs)" using c by (intro Max_ge) auto
  finally have "max 0 (Max (abs ` set xs)) = Max (abs ` set xs)" by simp
  then show ?thesis
    using assms by (simp add: max_abs_loop_def max_abs_fold_Finite max_abs_fold_real)
qed

lemma normalize_core:
  fixes M c :: real
  assumes M: "10 < M" "M < 2 powi 1024" and c: "\<bar>c\<bar> \<le> M"
  shows "\<bar>fl (c * fl (1 / M))\<bar> \<le> 1 + 2 powi (- 50)"
    and "\<bar>c\<bar> = M \<Longrightarrow> 1 - 2 powi (- 50) \<le> \<bar>fl (c * fl (1 / M))\<bar>"
proof -
  define u :: real where "u = 2 powi (- 53)"
  define t :: real where "t = 2 powi (- 1075)"
  define s where "s = fl (1 / M)"
  have u0: "0 < u" by (simp add: u_def)
  have u3: "u \<le> 1 / 3" unfolding u_def by (simp add: power_int_minus field_simps)
  have t0: "0 < t" by (simp add: t_def)
  have "(2::real) powi (- 1075) \<le> 2 powi (- 106)"
    by (rule power_int_increasing) simp_all
  also have "\<dots> = u * u" unfolding u_def p2_add by simp
  finally have tu: "t \<le> u * u" by (simp only: t_def)
  have "M * t \<le> 2 powi 1024 * t" using M t0 by (intro mult_right_mono) simp_all
  also have "\<dots> = 2 powi (- 51)" unfolding t_def p2_add by simp
  also have "\<dots> = 4 * u" unfolding u_def by (simp add: power_int_minus)
  finally have Mt: "M * t \<le> 4 * u" .
  have M0: "0 < M" using M by simp
  have "\<bar>s - 1 / M\<bar> \<le> t + \<bar>1 / M\<bar> * u"
    unfolding s_def t_def u_def by (rule fl_error)
  then have d1: "\<bar>s - 1 / M\<bar> \<le> t + u / M" using M0 by simp
  have "M * \<bar>s - 1 / M\<bar> \<le> M * (t + u / M)"
    using d1 M0 by (intro mult_left_mono) simp_all
  also have "\<dots> = M * t + u" using M0 by (simp add: algebra_simps)
  also have "\<dots> \<le> 5 * u" using Mt by simp
  finally have Md: "M * \<bar>s - 1 / M\<bar> \<le> 5 * u" .
  have "\<bar>M * s - 1\<bar> = M * \<bar>s - 1 / M\<bar>"
  proof -
    have "M * s - 1 = M * (s - 1 / M)" using M0 by (simp add: algebra_simps)
    then show ?thesis using M0 by (simp add: abs_mult)
  qed
  with Md have Ms: "\<bar>M * s - 1\<bar> \<le> 5 * u" by simp
  have sabs: "M * \<bar>s\<bar> = \<bar>M * s\<bar>" using M0 by (simp add: abs_mult)
  have cs_le: "\<bar>c * s\<bar> \<le> 1 + 5 * u"
  proof -
    have "\<bar>c * s\<bar> = \<bar>c\<bar> * \<bar>s\<bar>" by (simp add: abs_mult)
    also have "\<dots> \<le> M * \<bar>s\<bar>" using c by (intro mult_right_mono) simp_all
    also have "\<dots> = \<bar>M * s\<bar>" by (rule sabs)
    also have "\<dots> \<le> 1 + 5 * u" using Ms by linarith
    finally show ?thesis .
  qed
  have err: "\<bar>fl (c * s) - c * s\<bar> \<le> t + \<bar>c * s\<bar> * u"
    unfolding t_def u_def by (rule fl_error)
  have "\<bar>c * s\<bar> * u \<le> (1 + 5 * u) * u"
    using cs_le u0 by (intro mult_right_mono) simp_all
  with err tu have err': "\<bar>fl (c * s) - c * s\<bar> \<le> u * u + (1 + 5 * u) * u" by linarith
  have uu: "u * u \<le> u / 3" using u3 u0 mult_left_mono [of u "1 / 3" u] by simp
  have e2: "u * u + (1 + 5 * u) * u = u + 6 * (u * u)" by (simp add: algebra_simps)
  have p50: "(2::real) powi (- 50) = 8 * u" unfolding u_def by (simp add: power_int_minus)
  have "\<bar>fl (c * s)\<bar> \<le> \<bar>c * s\<bar> + \<bar>fl (c * s) - c * s\<bar>" by linarith
  also have "\<dots> \<le> (1 + 5 * u) + (u + 6 * (u * u))" using cs_le err' e2 by linarith
  also have "\<dots> \<le> 1 + 8 * u" using uu by linarith
  finally show "\<bar>fl (c * fl (1 / M))\<bar> \<le> 1 + 2 powi (- 50)"
    by (simp only: p50 s_def)
  show "1 - 2 powi (- 50) \<le> \<bar>fl (c * fl (1 / M))\<bar>" if "\<bar>c\<bar> = M"
  proof -
    have "\<bar>c * s\<bar> = \<bar>M * s\<bar>" using that sabs by (simp add: abs_mult)
    then have "1 - 5 * u \<le> \<bar>c * s\<bar>" using Ms by linarith
    moreover have "\<bar>c * s\<bar> - \<bar>fl (c * s) - c * s\<bar> \<le> \<bar>fl (c * s)\<bar>" by linarith
    ultimately have "1 - 5 * u - (u + 6 * (u * u)) \<le> \<bar>fl (c * s)\<bar>"
      using err' e2 by linarith
    then have "1 - 8 * u \<le> \<bar>fl (c * s)\<bar>" using uu by linarith
    then show ?thesis by (simp only: p50 s_def)
  qed
qed

lemma Normalize_eq:
  assumes "vertex_coord m = map Finite xs" "xs \<noteq> []"
  shows "Normalize m =
     (if 10 < Max (abs ` set xs)
      then m\<lparr>vertex_coord :=
              map (\<lambda>c. dmul c (ddiv (Finite 1) (Finite (Max (abs ` set xs))))) (vertex_coord m)\<rparr>
      else m)"
  using assms by (simp add: Normalize_def max_abs_loop_Max kNormalizationThreshold_def)

text \<open>The reciprocal of a maximum above 10 and the products with it do not overflow.\<close>

lemma two_small: "1 + 2 powi (- 50) < (2::real) ^ 1024"
proof -
  have "(2::real) powi (- 50) \<le> 2 powi 0" by (rule power_int_increasing) simp_all
  then have "1 + 2 powi (- 50) \<le> (2::real) ^ 1" by simp
  also have "\<dots> < 2 ^ 1024" by (rule power_strict_increasing) simp_all
  finally show ?thesis .
qed

lemma Normalize_finite:
  assumes v: "vertex_coord m = map Finite xs" "xs \<noteq> []"
    and M: "10 < Max (abs ` set xs)" "Max (abs ` set xs) < 2 powi 1024"
  shows "vertex_coord (Normalize m)
     = map Finite (map (\<lambda>c. fl (c * fl (1 / Max (abs ` set xs)))) xs)"
proof -
  define M where "M = Max (abs ` set xs)"
  have M': "10 < M" "M < 2 powi 1024" using M by (simp_all add: M_def)
  have le: "\<bar>c\<bar> \<le> M" if "c \<in> set xs" for c
    unfolding M_def using that by (intro Max_ge) auto
  have "\<bar>1 / M\<bar> \<le> 1" using M'(1) by simp
  also have "(1::real) \<le> 2 ^ 1023" by simp
  finally have r: "ddiv (Finite 1) (Finite M) = Finite (fl (1 / M))"
    using M'(1) by (simp add: round_double_small)
  have p: "dmul (Finite c) (Finite (fl (1 / M))) = Finite (fl (c * fl (1 / M)))"
    if "c \<in> set xs" for c
  proof -
    have "\<bar>fl (c * fl (1 / M))\<bar> \<le> 1 + 2 powi (- 50)"
      using M' le [OF that] by (rule normalize_core(1))
    then have "\<bar>fl (c * fl (1 / M))\<bar> < 2 ^ 1024" using two_small by linarith
    then show ?thesis by (simp add: round_double_Finite)
  qed
  have "vertex_coord (Normalize m)
      = map (\<lambda>c. dmul c (ddiv (Finite 1) (Finite M))) (map Finite xs)"
    using v M by (simp add: Normalize_eq M_def)
  also have "\<dots> = map (\<lambda>c. dmul c (Finite (fl (1 / M)))) (map Finite xs)"
    by (simp only: r)
  also have "\<dots> = map Finite (map (\<lambda>c. fl (c * fl (1 / M))) xs)"
    using p by (simp del: dmul.simps)
  finally show ?thesis unfolding M_def .
qed

lemma Normalize_new_max:
  assumes v: "vertex_coord m = map Finite xs" "xs \<noteq> []"
    and M: "10 < Max (abs ` set xs)" "Max (abs ` set xs) < 2 powi 1024"
  shows "\<exists>ys. vertex_coord (Normalize m) = map Finite ys
     \<and> \<bar>Max (abs ` set ys) - 1\<bar> \<le> 2 powi (- 50)"
proof -
  define M where "M = Max (abs ` set xs)"
  define g where "g = (\<lambda>c. \<bar>fl (c * fl (1 / M))\<bar>)"
  define ys where "ys = map (\<lambda>c. fl (c * fl (1 / M))) xs"
  have le: "\<bar>c\<bar> \<le> M" if "c \<in> set xs" for c
    unfolding M_def using that by (intro Max_ge) auto
  have "M \<in> abs ` set xs" unfolding M_def using v(2) by (intro Max_in) auto
  then obtain c0 where c0: "c0 \<in> set xs" "\<bar>c0\<bar> = M" by auto
  have M': "10 < M" "M < 2 powi 1024" using M by (simp_all add: M_def)
  have n: "vertex_coord (Normalize m) = map Finite ys"
    unfolding ys_def M_def using v M by (rule Normalize_finite)
  have img: "abs ` set ys = g ` set xs"
    by (simp add: ys_def g_def image_image)
  have fin: "finite (g ` set xs)" "g ` set xs \<noteq> {}" using v(2) by simp_all
  have up: "Max (g ` set xs) \<le> 1 + 2 powi (- 50)"
  proof (rule Max.boundedI [OF fin])
    fix a assume "a \<in> g ` set xs"
    then obtain c where "c \<in> set xs" "a = g c" by auto
    then show "a \<le> 1 + 2 powi (- 50)"
      using normalize_core(1) [OF M' le] by (simp only: g_def)
  qed
  have "1 - 2 powi (- 50) \<le> g c0"
    unfolding g_def using M' le [OF c0(1)] c0(2) by (rule normalize_core(2))
  also have "g c0 \<le> Max (g ` set xs)" using c0 by (intro Max_ge) auto
  finally have lo: "1 - 2 powi (- 50) \<le> Max (g ` set xs)" .
  from up lo have "\<bar>Max (abs ` set ys) - 1\<bar> \<le> 2 powi (- 50)"
    unfolding img abs_le_iff by linarith
  with n show ?thesis by blast
qed

text \<open>
  Claim C6, as the code has it. \<^verbatim>\<open>Normalize_\<close> leaves an empty buffer as it is. On a
  buffer of finite coordinates it computes the maximum absolute value \<open>M\<close>; when
  \<open>M \<le> 10\<close> the buffer stays as it is; when \<open>M > 10\<close> every coordinate is multiplied by
  the double nearest to \<open>1 / M\<close>, each product rounded. For finite doubles
  (\<open>M < 2\<^sup>1\<^sup>0\<^sup>2\<^sup>4\<close>) the new coordinates are finite and their maximum absolute value is
  within \<open>2\<^sup>-\<^sup>5\<^sup>0\<close> of 1.
\<close>

theorem Normalize_rescales_up_to_rounding:
  "(vertex_coord m = [] \<longrightarrow> Normalize m = m)
   \<and> (vertex_coord m = map Finite xs \<and> xs \<noteq> [] \<longrightarrow>
        max_abs_loop (vertex_coord m) = Finite (Max (abs ` set xs)))
   \<and> (vertex_coord m = map Finite xs \<and> xs \<noteq> [] \<and> Max (abs ` set xs) \<le> 10 \<longrightarrow>
        Normalize m = m)
   \<and> (vertex_coord m = map Finite xs \<and> xs \<noteq> [] \<and> 10 < Max (abs ` set xs) \<longrightarrow>
        Normalize m = m\<lparr>vertex_coord :=
          map (\<lambda>c. dmul c (ddiv (Finite 1) (Finite (Max (abs ` set xs))))) (vertex_coord m)\<rparr>)
   \<and> (vertex_coord m = map Finite xs \<and> xs \<noteq> [] \<and> 10 < Max (abs ` set xs)
        \<and> Max (abs ` set xs) < 2 powi 1024 \<longrightarrow>
        (\<exists>ys. vertex_coord (Normalize m) = map Finite ys
           \<and> \<bar>Max (abs ` set ys) - 1\<bar> \<le> 2 powi (- 50)))"
proof (intro conjI impI)
  show "Normalize m = m" if "vertex_coord m = []"
    using that by (simp add: Normalize_def)
  show "max_abs_loop (vertex_coord m) = Finite (Max (abs ` set xs))"
    if "vertex_coord m = map Finite xs \<and> xs \<noteq> []"
    using that by (simp add: max_abs_loop_Max)
  show "Normalize m = m"
    if "vertex_coord m = map Finite xs \<and> xs \<noteq> [] \<and> Max (abs ` set xs) \<le> 10"
    using that Normalize_eq [of m xs] by simp
  show "Normalize m = m\<lparr>vertex_coord :=
          map (\<lambda>c. dmul c (ddiv (Finite 1) (Finite (Max (abs ` set xs))))) (vertex_coord m)\<rparr>"
    if "vertex_coord m = map Finite xs \<and> xs \<noteq> [] \<and> 10 < Max (abs ` set xs)"
    using that Normalize_eq [of m xs] by simp
  show "\<exists>ys. vertex_coord (Normalize m) = map Finite ys
           \<and> \<bar>Max (abs ` set ys) - 1\<bar> \<le> 2 powi (- 50)"
    if "vertex_coord m = map Finite xs \<and> xs \<noteq> [] \<and> 10 < Max (abs ` set xs)
        \<and> Max (abs ` set xs) < 2 powi 1024"
    using that by (intro Normalize_new_max) blast+
qed

theorem Normalize_rescales_up_to_rounding_witness:
  "Normalize \<lparr>filename = ''a.obj'', vertex_coord = [], vertex_index = [],
       error_code = kNoError, strategy = None\<rparr>
     = \<lparr>filename = ''a.obj'', vertex_coord = [], vertex_index = [],
        error_code = kNoError, strategy = None\<rparr>
   \<and> Normalize \<lparr>filename = ''a.obj'', vertex_coord = [Finite 10, Finite (- 3), Finite 0],
       vertex_index = [], error_code = kNoError, strategy = None\<rparr>
     = \<lparr>filename = ''a.obj'', vertex_coord = [Finite 10, Finite (- 3), Finite 0],
        vertex_index = [], error_code = kNoError, strategy = None\<rparr>
   \<and> (\<exists>ys. vertex_coord (Normalize
         \<lparr>filename = ''a.obj'',
          vertex_coord = [Finite 100, Finite (- 200), Finite 300, Finite 50, Finite 100, Finite 150],
          vertex_index = [], error_code = kNoError, strategy = None\<rparr>) = map Finite ys
       \<and> \<bar>Max (abs ` set ys) - 1\<bar> \<le> 2 powi (- 50))"
proof -
  define m1 where "m1 = \<lparr>filename = ''a.obj'', vertex_coord = [], vertex_index = [],
       error_code = kNoError, strategy = None\<rparr>"
  define m2 where "m2 = \<lparr>filename = ''a.obj'',
       vertex_coord = [Finite 10, Finite (- 3), Finite 0],
       vertex_index = [], error_code = kNoError, strategy = None\<rparr>"
  define m3 where "m3 = \<lparr>filename = ''a.obj'',
       vertex_coord = [Finite 100, Finite (- 200), Finite 300, Finite 50, Finite 100, Finite 150],
       vertex_index = [], error_code = kNoError, strategy = None\<rparr>"
  have 1: "Normalize m1 = m1"
    using Normalize_rescales_up_to_rounding [of m1 "[]"] by (simp add: m1_def)
  have h2: "vertex_coord m2 = map Finite [10, - 3, 0] \<and> [10, - 3, 0 :: real] \<noteq> []
      \<and> Max (abs ` set [10, - 3, 0 :: real]) \<le> 10"
    by (simp add: m2_def)
  have 2: "Normalize m2 = m2"
    using Normalize_rescales_up_to_rounding [of m2 "[10, - 3, 0]"] h2 by blast
  have h3: "vertex_coord m3 = map Finite [100, - 200, 300, 50, 100, 150]
      \<and> [100, - 200, 300, 50, 100, 150 :: real] \<noteq> []
      \<and> 10 < Max (abs ` set [100, - 200, 300, 50, 100, 150 :: real])
      \<and> Max (abs ` set [100, - 200, 300, 50, 100, 150 :: real]) < 2 powi 1024"
    by (simp add: m3_def)
  have 3: "\<exists>ys. vertex_coord (Normalize m3) = map Finite ys
       \<and> \<bar>Max (abs ` set ys) - 1\<bar> \<le> 2 powi (- 50)"
    using Normalize_rescales_up_to_rounding [of m3 "[100, - 200, 300, 50, 100, 150]"] h3
    by blast
  from 1 2 3 show ?thesis unfolding m1_def m2_def m3_def by blast
qed

text \<open>
  The new maximum is not always 1: the file with the single vertex \<^verbatim>\<open>v 49 0 0\<close> is
  loaded as \<open>(1 - 2\<^sup>-\<^sup>5\<^sup>3, 0, 0)\<close>, since the double nearest to \<open>1 / 49\<close> is below
  \<open>1 / 49\<close> and 49 times it rounds to the double below 1.
\<close>

theorem Normalize_max_not_exactly_one:
  "Parser (\<lambda>p. if p = ''big.obj'' then Some (''v 49 0 0'' @ [CHR 0x0A]) else None)
     \<lparr>filename = ''big.obj'', vertex_coord = [], vertex_index = [],
      error_code = kNoError, strategy = None\<rparr>
   = \<lparr>filename = ''big.obj'',
      vertex_coord = [Finite (9007199254740991 / 9007199254740992), Finite 0, Finite 0],
      vertex_index = [], error_code = kNoError, strategy = None\<rparr>
   \<and> Max (abs ` set [9007199254740991 / 9007199254740992, 0, 0 :: real]) \<noteq> 1"
proof -
  have a: "round_double (1 / 49) = Finite (5882252574524729 / 288230376151711744)"
    using round_double_unit [of "1 / 49"] by (simp add: fl_1_49)
  have b: "round_double (288230376151711721 / 288230376151711744)
      = Finite (9007199254740991 / 9007199254740992)"
    using round_double_unit [of "288230376151711721 / 288230376151711744"]
    by (simp add: fl_49_inv)
  show ?thesis
    by (simp add: parse_defs scan_defs round_evals a b)
qed

section \<open>Setting the source\<close>

text \<open>
  Claim C7. \<^verbatim>\<open>SetFileName\<close> empties the coordinates and the edge indices and resets the
  error code whatever the state was. Then a path that ends in the case-sensitive suffix
  \<^verbatim>\<open>.obj\<close> and has at least 5 characters is stored with \<^verbatim>\<open>kNoError\<close>; for any other path
  the error is \<^verbatim>\<open>kFileWrongExtension\<close> and the stored file name stays the one it was.
\<close>

theorem SetFileName_clears_then_validates:
  "SetFileName p m =
     (if suffix ''.obj'' p \<and> 5 \<le> length p
      then m\<lparr>vertex_coord := [], vertex_index := [], error_code := kNoError, filename := p\<rparr>
      else m\<lparr>vertex_coord := [], vertex_index := [], error_code := kFileWrongExtension\<rparr>)"
  by (simp add: SetFileName_def ClearData_def IsValidObjExtension_iff)

theorem SetFileName_clears_then_validates_witness:
  "SetFileName ''cube.obj''
     \<lparr>filename = ''old.obj'', vertex_coord = [Finite 1, Finite 2, Finite 3], vertex_index = [0, 0],
      error_code = kIncorrectData, strategy = None\<rparr>
     = \<lparr>filename = ''cube.obj'', vertex_coord = [], vertex_index = [],
        error_code = kNoError, strategy = None\<rparr>
   \<and> SetFileName ''test.txt''
       \<lparr>filename = ''old.obj'', vertex_coord = [Finite 1, Finite 2, Finite 3], vertex_index = [0, 0],
        error_code = kNoError, strategy = None\<rparr>
     = \<lparr>filename = ''old.obj'', vertex_coord = [], vertex_index = [],
        error_code = kFileWrongExtension, strategy = None\<rparr>
   \<and> error_code (SetFileName ''.obj''
       \<lparr>filename = ''old.obj'', vertex_coord = [], vertex_index = [],
        error_code = kNoError, strategy = None\<rparr>) = kFileWrongExtension"
  using SetFileName_clears_then_validates [of "''cube.obj''"]
    SetFileName_clears_then_validates [of "''test.txt''"]
    SetFileName_clears_then_validates [of "''.obj''"]
  by (simp add: suffix_def)

section \<open>Rotation\<close>

lemma RotateAroundZ_loop_inv:
  "i mod 3 = 0 \<Longrightarrow> length v mod 3 = 0 \<Longrightarrow>
   \<exists>v'. RotateAroundZ_loop i c s v = Some v' \<and> length v' = length v \<and>
     (\<forall>j < length v. v' ! j =
        (if j < i then v ! j
         else if j mod 3 = 0 then dadd (dmul c (v ! j)) (dmul s (v ! (j + 1)))
         else if j mod 3 = 1 then dadd (dmul (dneg s) (v ! (j - 1))) (dmul c (v ! j))
         else v ! j))"
proof (induction i c s v rule: RotateAroundZ_loop.induct)
  case (1 i c s v)
  show ?case
  proof (cases "i < length v")
    case False
    then show ?thesis by (subst RotateAroundZ_loop.simps) simp
  next
    case True
    with 1(2,3) have i2: "i + 2 < length v" by presburger
    define v1 where "v1 = v[i := dadd (dmul c (v ! i)) (dmul s (v ! (i + 1))),
                           i + 1 := dadd (dmul (dneg s) (v ! i)) (dmul c (v ! (i + 1)))]"
    have l1: "length v1 = length v" by (simp add: v1_def)
    have "(i + 3) mod 3 = 0" using 1(2) by presburger
    have IH: "\<exists>v'. RotateAroundZ_loop (i + 3) c s v1 = Some v' \<and> length v' = length v1 \<and>
      (\<forall>j < length v1. v' ! j =
        (if j < i + 3 then v1 ! j
         else if j mod 3 = 0 then dadd (dmul c (v1 ! j)) (dmul s (v1 ! (j + 1)))
         else if j mod 3 = 1 then dadd (dmul (dneg s) (v1 ! (j - 1))) (dmul c (v1 ! j))
         else v1 ! j))"
      unfolding v1_def
      using i2 \<open>(i + 3) mod 3 = 0\<close> 1(3) by (intro 1(1) [OF True _ refl refl]) simp_all
    then obtain v' where v': "RotateAroundZ_loop (i + 3) c s v1 = Some v'" "length v' = length v"
      and f: "\<forall>j < length v. v' ! j =
        (if j < i + 3 then v1 ! j
         else if j mod 3 = 0 then dadd (dmul c (v1 ! j)) (dmul s (v1 ! (j + 1)))
         else if j mod 3 = 1 then dadd (dmul (dneg s) (v1 ! (j - 1))) (dmul c (v1 ! j))
         else v1 ! j)"
      unfolding l1 by blast
    have step: "RotateAroundZ_loop i c s v = RotateAroundZ_loop (i + 3) c s v1"
      using True i2 by (subst RotateAroundZ_loop.simps) (simp add: v1_def Let_def)
    have "v' ! j =
        (if j < i then v ! j
         else if j mod 3 = 0 then dadd (dmul c (v ! j)) (dmul s (v ! (j + 1)))
         else if j mod 3 = 1 then dadd (dmul (dneg s) (v ! (j - 1))) (dmul c (v ! j))
         else v ! j)" if j: "j < length v" for j
    proof -
      consider "j < i" | "j = i" | "j = i + 1" | "j = i + 2" | "i + 3 \<le> j" by linarith
      then show ?thesis
      proof cases
        case 1 then show ?thesis using f j by (simp add: v1_def)
      next
        case 2 then show ?thesis using f j i2 \<open>i mod 3 = 0\<close> by (simp add: v1_def)
      next
        case 3
        then have "j mod 3 = 1" using \<open>i mod 3 = 0\<close> by presburger
        then show ?thesis using f j i2 3 by (simp add: v1_def)
      next
        case 4
        then have "j mod 3 = 2" using \<open>i mod 3 = 0\<close> by presburger
        then show ?thesis using f j i2 4 by (simp add: v1_def)
      next
        case 5
        then show ?thesis using f j by (simp add: v1_def)
      qed
    qed
    with v' step show ?thesis by simp
  qed
qed

lemma RotateAroundX_loop_inv:
  "i mod 3 = 1 \<Longrightarrow> length v mod 3 = 0 \<Longrightarrow>
   \<exists>v'. RotateAroundX_loop i c s v = Some v' \<and> length v' = length v \<and>
     (\<forall>j < length v. v' ! j =
        (if j < i then v ! j
         else if j mod 3 = 1 then dsub (dmul c (v ! j)) (dmul s (v ! (j + 1)))
         else if j mod 3 = 2 then dadd (dmul s (v ! (j - 1))) (dmul c (v ! j))
         else v ! j))"
proof (induction i c s v rule: RotateAroundX_loop.induct)
  case (1 i c s v)
  show ?case
  proof (cases "i < length v")
    case False
    then show ?thesis by (subst RotateAroundX_loop.simps) simp
  next
    case True
    with 1(2,3) have i2: "i + 1 < length v" by presburger
    define v1 where "v1 = v[i := dsub (dmul c (v ! i)) (dmul s (v ! (i + 1))),
                           i + 1 := dadd (dmul s (v ! i)) (dmul c (v ! (i + 1)))]"
    have l1: "length v1 = length v" by (simp add: v1_def)
    have "(i + 3) mod 3 = 1" using 1(2) by presburger
    have IH: "\<exists>v'. RotateAroundX_loop (i + 3) c s v1 = Some v' \<and> length v' = length v1 \<and>
      (\<forall>j < length v1. v' ! j =
        (if j < i + 3 then v1 ! j
         else if j mod 3 = 1 then dsub (dmul c (v1 ! j)) (dmul s (v1 ! (j + 1)))
         else if j mod 3 = 2 then dadd (dmul s (v1 ! (j - 1))) (dmul c (v1 ! j))
         else v1 ! j))"
      unfolding v1_def
      using i2 \<open>(i + 3) mod 3 = 1\<close> 1(3) by (intro 1(1) [OF True _ refl refl]) simp_all
    then obtain v' where v': "RotateAroundX_loop (i + 3) c s v1 = Some v'" "length v' = length v"
      and f: "\<forall>j < length v. v' ! j =
        (if j < i + 3 then v1 ! j
         else if j mod 3 = 1 then dsub (dmul c (v1 ! j)) (dmul s (v1 ! (j + 1)))
         else if j mod 3 = 2 then dadd (dmul s (v1 ! (j - 1))) (dmul c (v1 ! j))
         else v1 ! j)"
      unfolding l1 by blast
    have step: "RotateAroundX_loop i c s v = RotateAroundX_loop (i + 3) c s v1"
      using True i2 by (subst RotateAroundX_loop.simps) (simp add: v1_def Let_def)
    have "v' ! j =
        (if j < i then v ! j
         else if j mod 3 = 1 then dsub (dmul c (v ! j)) (dmul s (v ! (j + 1)))
         else if j mod 3 = 2 then dadd (dmul s (v ! (j - 1))) (dmul c (v ! j))
         else v ! j)" if j: "j < length v" for j
    proof -
      consider "j < i" | "j = i" | "j = i + 1" | "j = i + 2" | "i + 3 \<le> j" by linarith
      then show ?thesis
      proof cases
        case 1 then show ?thesis using f j by (simp add: v1_def)
      next
        case 2 then show ?thesis using f j i2 \<open>i mod 3 = 1\<close> by (simp add: v1_def)
      next
        case 3
        then have "j mod 3 = 2" using \<open>i mod 3 = 1\<close> by presburger
        then show ?thesis using f j i2 3 by (simp add: v1_def)
      next
        case 4
        then have "j mod 3 = 0" using \<open>i mod 3 = 1\<close> by presburger
        then show ?thesis using f j i2 4 by (simp add: v1_def)
      next
        case 5
        then show ?thesis using f j by (simp add: v1_def)
      qed
    qed
    with v' step show ?thesis by simp
  qed
qed

lemma RotateAroundY_loop_inv:
  "i mod 3 = 0 \<Longrightarrow> length v mod 3 = 0 \<Longrightarrow>
   \<exists>v'. RotateAroundY_loop i c s v = Some v' \<and> length v' = length v \<and>
     (\<forall>j < length v. v' ! j =
        (if j < i then v ! j
         else if j mod 3 = 0 then dadd (dmul c (v ! j)) (dmul s (v ! (j + 2)))
         else if j mod 3 = 2 then dadd (dmul (dneg s) (v ! (j - 2))) (dmul c (v ! j))
         else v ! j))"
proof (induction i c s v rule: RotateAroundY_loop.induct)
  case (1 i c s v)
  show ?case
  proof (cases "i < length v")
    case False
    then show ?thesis by (subst RotateAroundY_loop.simps) simp
  next
    case True
    with 1(2,3) have i2: "i + 2 < length v" by presburger
    define v1 where "v1 = v[i := dadd (dmul c (v ! i)) (dmul s (v ! (i + 2))),
                           i + 2 := dadd (dmul (dneg s) (v ! i)) (dmul c (v ! (i + 2)))]"
    have l1: "length v1 = length v" by (simp add: v1_def)
    have "(i + 3) mod 3 = 0" using 1(2) by presburger
    have IH: "\<exists>v'. RotateAroundY_loop (i + 3) c s v1 = Some v' \<and> length v' = length v1 \<and>
      (\<forall>j < length v1. v' ! j =
        (if j < i + 3 then v1 ! j
         else if j mod 3 = 0 then dadd (dmul c (v1 ! j)) (dmul s (v1 ! (j + 2)))
         else if j mod 3 = 2 then dadd (dmul (dneg s) (v1 ! (j - 2))) (dmul c (v1 ! j))
         else v1 ! j))"
      unfolding v1_def
      using i2 \<open>(i + 3) mod 3 = 0\<close> 1(3) by (intro 1(1) [OF True _ refl refl]) simp_all
    then obtain v' where v': "RotateAroundY_loop (i + 3) c s v1 = Some v'" "length v' = length v"
      and f: "\<forall>j < length v. v' ! j =
        (if j < i + 3 then v1 ! j
         else if j mod 3 = 0 then dadd (dmul c (v1 ! j)) (dmul s (v1 ! (j + 2)))
         else if j mod 3 = 2 then dadd (dmul (dneg s) (v1 ! (j - 2))) (dmul c (v1 ! j))
         else v1 ! j)"
      unfolding l1 by blast
    have step: "RotateAroundY_loop i c s v = RotateAroundY_loop (i + 3) c s v1"
      using True i2 by (subst RotateAroundY_loop.simps) (simp add: v1_def Let_def)
    have "v' ! j =
        (if j < i then v ! j
         else if j mod 3 = 0 then dadd (dmul c (v ! j)) (dmul s (v ! (j + 2)))
         else if j mod 3 = 2 then dadd (dmul (dneg s) (v ! (j - 2))) (dmul c (v ! j))
         else v ! j)" if j: "j < length v" for j
    proof -
      consider "j < i" | "j = i" | "j = i + 1" | "j = i + 2" | "i + 3 \<le> j" by linarith
      then show ?thesis
      proof cases
        case 1 then show ?thesis using f j by (simp add: v1_def)
      next
        case 2 then show ?thesis using f j i2 \<open>i mod 3 = 0\<close> by (simp add: v1_def)
      next
        case 3
        then have "j mod 3 = 1" using \<open>i mod 3 = 0\<close> by presburger
        then show ?thesis using f j i2 3 by (simp add: v1_def)
      next
        case 4
        then have "j mod 3 = 2" using \<open>i mod 3 = 0\<close> by presburger
        then show ?thesis using f j i2 4 by (simp add: v1_def)
      next
        case 5
        then have "j mod 3 = 2 \<longrightarrow> i + 5 \<le> j" using \<open>i mod 3 = 0\<close> by presburger
        then show ?thesis using 5 f j by (auto simp add: v1_def)
      qed
    qed
    with v' step show ?thesis by simp
  qed
qed

lemma triple_index:
  "k < n div 3 \<Longrightarrow> 3 * k + 2 < (n::nat)"
  "(3 * k) mod 3 = (0::nat)" "(3 * k + 1) mod 3 = (1::nat)" "(3 * k + 2) mod 3 = (2::nat)"
  by presburger+

lemma Rotate_vertices:
  assumes len: "3 \<le> length v" "length v mod 3 = 0"
    and ax: "axis = kX \<or> axis = kY \<or> axis = kZ"
  shows "\<exists>v'. RotateStrategy_Transform L v angle axis = Some v' \<and> length v' = length v \<and>
     (\<forall>k < length v div 3.
        (v' ! (3 * k), v' ! (3 * k + 1), v' ! (3 * k + 2)) =
          spec_rotate_vertex axis
            (std_cos L (dmul angle kRadianToDegree))
            (std_sin L (dmul angle kRadianToDegree))
            (v ! (3 * k), v ! (3 * k + 1), v ! (3 * k + 2)))"
proof -
  define c where "c = std_cos L (dmul angle kRadianToDegree)"
  define s where "s = std_sin L (dmul angle kRadianToDegree)"
  from ax consider "axis = kX" | "axis = kY" | "axis = kZ" by blast
  then show ?thesis
  proof cases
    case 1
    have T: "RotateStrategy_Transform L v angle axis = RotateAroundX_loop 1 c s v"
      using len 1 by (simp add: RotateStrategy_Transform_def Let_def
          RotateAroundX_def c_def s_def)
    obtain v' where v': "RotateAroundX_loop 1 c s v = Some v'" "length v' = length v"
      and f: "\<forall>j < length v. v' ! j =
        (if j < 1 then v ! j
         else if j mod 3 = 1 then dsub (dmul c (v ! j)) (dmul s (v ! (j + 1)))
         else if j mod 3 = 2 then dadd (dmul s (v ! (j - 1))) (dmul c (v ! j))
         else v ! j)"
      using RotateAroundX_loop_inv [of 1 v c s] len by auto
    have "(v' ! (3 * k), v' ! (3 * k + 1), v' ! (3 * k + 2)) =
          spec_rotate_vertex axis c s (v ! (3 * k), v ! (3 * k + 1), v ! (3 * k + 2))"
      if k: "k < length v div 3" for k
    proof -
      have b: "3 * k < length v" "3 * k + 1 < length v" "3 * k + 2 < length v"
        using triple_index(1) [OF k] by simp_all
      have "v' ! (3 * k) = v ! (3 * k)" using f b(1) by (cases k) simp_all
      moreover have "v' ! (3 * k + 1) = dsub (dmul c (v ! (3 * k + 1))) (dmul s (v ! (3 * k + 2)))"
        using f b(2) triple_index(3) [of k] by (simp add: add.commute)
      moreover have "v' ! (3 * k + 2) = dadd (dmul s (v ! (3 * k + 1))) (dmul c (v ! (3 * k + 2)))"
        using f b(3) triple_index(4) [of k] by simp
      ultimately show ?thesis
        using 1 by (simp add: spec_rotate_vertex_def dmul_commute [of c] dmul_commute [of s])
    qed
    with T v' show ?thesis unfolding c_def s_def by simp
  next
    case 2
    have T: "RotateStrategy_Transform L v angle axis = RotateAroundY_loop 0 c s v"
      using len 2 by (simp add: RotateStrategy_Transform_def Let_def
          RotateAroundY_def c_def s_def kX_def kY_def)
    obtain v' where v': "RotateAroundY_loop 0 c s v = Some v'" "length v' = length v"
      and f: "\<forall>j < length v. v' ! j =
        (if j < 0 then v ! j
         else if j mod 3 = 0 then dadd (dmul c (v ! j)) (dmul s (v ! (j + 2)))
         else if j mod 3 = 2 then dadd (dmul (dneg s) (v ! (j - 2))) (dmul c (v ! j))
         else v ! j)"
      using RotateAroundY_loop_inv [of 0 v c s] len by auto
    have "(v' ! (3 * k), v' ! (3 * k + 1), v' ! (3 * k + 2)) =
          spec_rotate_vertex axis c s (v ! (3 * k), v ! (3 * k + 1), v ! (3 * k + 2))"
      if k: "k < length v div 3" for k
    proof -
      have b: "3 * k < length v" "3 * k + 1 < length v" "3 * k + 2 < length v"
        using triple_index(1) [OF k] by simp_all
      have "v' ! (3 * k) = dadd (dmul c (v ! (3 * k))) (dmul s (v ! (3 * k + 2)))"
        using f b(1) by simp
      moreover have "v' ! (3 * k + 1) = v ! (3 * k + 1)"
        using f b(2) triple_index(3) [of k] by simp
      moreover have "v' ! (3 * k + 2) = dadd (dmul (dneg s) (v ! (3 * k))) (dmul c (v ! (3 * k + 2)))"
        using f b(3) triple_index(4) [of k] by simp
      ultimately show ?thesis
        using 2 by (simp add: spec_rotate_vertex_def dmul_commute [of c] dmul_commute [of s]
            dmul_dneg_swap [of s] kX_def kY_def)
    qed
    with T v' show ?thesis unfolding c_def s_def by simp
  next
    case 3
    have T: "RotateStrategy_Transform L v angle axis = RotateAroundZ_loop 0 c s v"
      using len 3 by (simp add: RotateStrategy_Transform_def Let_def
          RotateAroundZ_def c_def s_def kX_def kY_def kZ_def)
    obtain v' where v': "RotateAroundZ_loop 0 c s v = Some v'" "length v' = length v"
      and f: "\<forall>j < length v. v' ! j =
        (if j < 0 then v ! j
         else if j mod 3 = 0 then dadd (dmul c (v ! j)) (dmul s (v ! (j + 1)))
         else if j mod 3 = 1 then dadd (dmul (dneg s) (v ! (j - 1))) (dmul c (v ! j))
         else v ! j)"
      using RotateAroundZ_loop_inv [of 0 v c s] len by auto
    have "(v' ! (3 * k), v' ! (3 * k + 1), v' ! (3 * k + 2)) =
          spec_rotate_vertex axis c s (v ! (3 * k), v ! (3 * k + 1), v ! (3 * k + 2))"
      if k: "k < length v div 3" for k
    proof -
      have b: "3 * k < length v" "3 * k + 1 < length v" "3 * k + 2 < length v"
        using triple_index(1) [OF k] by simp_all
      have "v' ! (3 * k) = dadd (dmul c (v ! (3 * k))) (dmul s (v ! (3 * k + 1)))"
        using f b(1) by simp
      moreover have "v' ! (3 * k + 1) = dadd (dmul (dneg s) (v ! (3 * k))) (dmul c (v ! (3 * k + 1)))"
        using f b(2) triple_index(3) [of k] by simp
      moreover have "v' ! (3 * k + 2) = v ! (3 * k + 2)"
        using f b(3) triple_index(4) [of k] by simp
      ultimately show ?thesis
        using 3 by (simp add: spec_rotate_vertex_def dmul_commute [of c] dmul_commute [of s]
            dmul_dneg_swap [of s] kX_def kY_def kZ_def)
    qed
    with T v' show ?thesis unfolding c_def s_def by simp
  qed
qed

lemma sin_lipschitz: "\<bar>sin w - sin z\<bar> \<le> \<bar>w - z\<bar>" for w z :: real
proof -
  have "\<bar>sin w - sin z\<bar> = 2 * \<bar>sin ((w - z) / 2)\<bar> * \<bar>cos ((w + z) / 2)\<bar>"
    by (simp add: sin_diff_sin abs_mult)
  also have "\<dots> \<le> 2 * \<bar>(w - z) / 2\<bar> * 1"
    by (intro mult_mono mult_left_mono abs_sin_x_le_abs_x) simp_all
  finally show ?thesis by simp
qed

lemma small_consts:
  "(2::real) powi (- 53) \<le> 1 / 10 ^ 15" "(2::real) powi (- 1075) \<le> 2 powi (- 53)"
proof -
  show "(2::real) powi (- 53) \<le> 1 / 10 ^ 15"
    by (simp add: power_int_minus field_simps)
  show "(2::real) powi (- 1075) \<le> 2 powi (- 53)"
    by (rule power_int_increasing) simp_all
qed

lemma M_PI_fl: "fl (314159265358979323846 / 10 ^ 20) = 884279719003555 / 2 ^ 48"
proof -
  have "fl (314159265358979323846 / 10 ^ 20)
      = of_int (rne ((314159265358979323846 / 10 ^ 20) / 2 powi (1 - 52))) * 2 powi (1 - 52)"
    by (rule fl_binade) simp_all
  also have "(314159265358979323846 / 10 ^ 20) / 2 powi (1 - 52)
      = (314159265358979323846 * 2 ^ 51 / 10 ^ 20 :: real)"
    by (simp add: power_int_minus field_simps)
  also have "rne (314159265358979323846 * 2 ^ 51 / 10 ^ 20) = 7074237752028440"
    by (simp add: rne_def)
  finally show ?thesis by (simp add: power_int_minus)
qed

lemma M_PI_value: "M_PI = Finite (884279719003555 / 2 ^ 48)"
proof -
  have "\<bar>314159265358979323846 / 10 ^ 20 :: real\<bar> \<le> 2 ^ 53" by simp
  then have "round_double (314159265358979323846 / 10 ^ 20)
      = Finite (fl (314159265358979323846 / 10 ^ 20))"
    by (rule round_double_unit)
  then show ?thesis by (simp only: M_PI_def M_PI_fl)
qed

lemma arctan_partial_sums:
  fixes x :: real
  assumes x: "0 \<le> x" "x \<le> 1"
  shows "(\<Sum>i<2 * n. (- 1) ^ i * (1 / real (i * 2 + 1) * x ^ (i * 2 + 1))) \<le> arctan x"
    and "arctan x \<le> (\<Sum>i<2 * n + 1. (- 1) ^ i * (1 / real (i * 2 + 1) * x ^ (i * 2 + 1)))"
proof -
  define a where "a = (\<lambda>i. 1 / real (i * 2 + 1) * x ^ (i * 2 + 1))"
  have z: "a \<longlonglongrightarrow> 0"
    unfolding a_def using x by (intro zeroseq_arctan_series) simp
  have p: "0 \<le> a i" for i unfolding a_def using x by simp
  have m: "a (Suc i) \<le> a i" for i
  proof -
    have "x ^ (Suc i * 2 + 1) \<le> x ^ (i * 2 + 1)"
      using x by (intro power_decreasing) simp_all
    moreover have "1 / real (Suc i * 2 + 1) \<le> 1 / real (i * 2 + 1)"
      by (intro divide_left_mono) simp_all
    ultimately show ?thesis
      unfolding a_def using x by (intro mult_mono) simp_all
  qed
  have s: "arctan x = (\<Sum>i. (- 1) ^ i * a i)"
    unfolding a_def using x by (intro arctan_series) simp
  show "(\<Sum>i<2 * n. (- 1) ^ i * (1 / real (i * 2 + 1) * x ^ (i * 2 + 1))) \<le> arctan x"
    unfolding s using summable_Leibniz'(2) [OF z p m] by (simp add: a_def)
  show "arctan x \<le> (\<Sum>i<2 * n + 1. (- 1) ^ i * (1 / real (i * 2 + 1) * x ^ (i * 2 + 1)))"
    unfolding s using summable_Leibniz'(4) [OF z p m] by (simp add: a_def)
qed

lemma pi_near_M_PI: "\<bar>884279719003555 / 2 ^ 48 - pi\<bar> \<le> 1 / 10 ^ 12"
proof -
  define A :: real where "A = arctan (1 / 7)"
  define B :: real where "B = arctan (3 / 79)"
  have la: "(\<Sum>i<2 * 4. (- 1) ^ i * (1 / real (i * 2 + 1) * (1 / 7 :: real) ^ (i * 2 + 1))) \<le> A"
    unfolding A_def by (rule arctan_partial_sums) simp_all
  have ua: "A \<le> (\<Sum>i<2 * 4 + 1. (- 1) ^ i * (1 / real (i * 2 + 1) * (1 / 7 :: real) ^ (i * 2 + 1)))"
    unfolding A_def by (rule arctan_partial_sums) simp_all
  have lb: "(\<Sum>i<2 * 2. (- 1) ^ i * (1 / real (i * 2 + 1) * (3 / 79 :: real) ^ (i * 2 + 1))) \<le> B"
    unfolding B_def by (rule arctan_partial_sums) simp_all
  have ub: "B \<le> (\<Sum>i<2 * 2 + 1. (- 1) ^ i * (1 / real (i * 2 + 1) * (3 / 79 :: real) ^ (i * 2 + 1)))"
    unfolding B_def by (rule arctan_partial_sums) simp_all
  have la': "1418970546041636 / 10 ^ 16 \<le> A"
    by (rule order_trans [OF _ la]) (simp add: lessThan_nat_numeral lessThan_Suc power_divide)
  have ua': "A \<le> 1418970546041640 / 10 ^ 16"
    by (rule order_trans [OF ua]) (simp add: lessThan_nat_numeral lessThan_Suc power_divide)
  have lb': "379564451882961 / 10 ^ 16 \<le> B"
    by (rule order_trans [OF _ lb]) (simp add: lessThan_nat_numeral lessThan_Suc power_divide)
  have ub': "B \<le> 379564451883144 / 10 ^ 16"
    by (rule order_trans [OF ub]) (simp add: lessThan_nat_numeral lessThan_Suc power_divide)
  have "pi = 20 * A + 8 * B"
    using machin_Euler by (simp add: A_def B_def)
  moreover have "(31415926535897 / 10 ^ 13 :: real) \<le> 884279719003555 / 2 ^ 48"
    "(884279719003555 / 2 ^ 48 :: real) \<le> 31415926535898 / 10 ^ 13"
    by simp_all
  moreover have "20 * (1418970546041636 / 10 ^ 16) + 8 * (379564451882961 / 10 ^ 16)
      \<ge> (31415926535896 / 10 ^ 13 :: real)"
    "20 * (1418970546041640 / 10 ^ 16) + 8 * (379564451883144 / 10 ^ 16)
      \<le> (31415926535898 / 10 ^ 13 :: real)"
    "(2 / 10 ^ 13 :: real) \<le> 1 / 10 ^ 12"
    by simp_all
  ultimately show ?thesis using la' ua' lb' ub' by linarith
qed

text \<open>
  The constant \<^verbatim>\<open>kRadianToDegree\<close> and the angle of a quarter turn, with \<open>M\<close> the value of
  \<^verbatim>\<open>M_PI\<close>: both are finite doubles.
\<close>

lemma radian_consts:
  assumes M: "M = 884279719003555 / 2 ^ 48"
  shows "\<bar>fl (M / 180) - pi / 180\<bar> \<le> 1 / 10 ^ 14"
    and "\<bar>fl (M / 180)\<bar> \<le> 1 / 30"
    and "\<bar>fl (90 * fl (M / 180)) - pi / 2\<bar> \<le> 1 / 10 ^ 11"
proof -
  define u :: real where "u = 2 powi (- 53)"
  define t :: real where "t = 2 powi (- 1075)"
  define e :: real where "e = 1 / 10 ^ 12"
  define k where "k = fl (M / 180)"
  have u: "0 < u" "u \<le> 1 / 10 ^ 15" "t \<le> u" "0 < t"
    using small_consts by (simp_all add: u_def t_def)
  have e: "\<bar>M - pi\<bar> \<le> e" "e \<le> 1" "184 * (1 / 10 ^ 15) + e / 2 \<le> 1 / 10 ^ 11"
    "2 * (1 / 10 ^ 15) + e / 180 \<le> 1 / 10 ^ 14"
    using pi_near_M_PI by (simp_all add: e_def M)
  then have M5: "\<bar>M\<bar> \<le> 5" using pi_less_4 pi_gt_zero by linarith
  have "\<bar>k - M / 180\<bar> \<le> t + \<bar>M / 180\<bar> * u"
    unfolding k_def t_def u_def by (rule fl_error)
  moreover have "\<bar>M / 180\<bar> * u \<le> 1 * u"
    using M5 u(1) by (intro mult_right_mono) simp_all
  ultimately have k1: "\<bar>k - M / 180\<bar> \<le> 2 * u" using u by linarith
  have "\<bar>M / 180 - pi / 180\<bar> \<le> e / 180" using e(1) by linarith
  with k1 have "\<bar>k - pi / 180\<bar> \<le> 2 * u + e / 180" by linarith
  also have "\<dots> \<le> 2 * (1 / 10 ^ 15) + e / 180" using u(2) by linarith
  also have "\<dots> \<le> 1 / 10 ^ 14" by (rule e(4))
  finally show "\<bar>fl (M / 180) - pi / 180\<bar> \<le> 1 / 10 ^ 14" unfolding k_def .
  have "2 * u \<le> 1 / 360" using u(2) by simp
  with k1 have k2: "\<bar>k\<bar> \<le> 1 / 30" using M5 by linarith
  then show "\<bar>fl (M / 180)\<bar> \<le> 1 / 30" unfolding k_def .
  have "\<bar>fl (90 * k) - 90 * k\<bar> \<le> t + \<bar>90 * k\<bar> * u"
    unfolding t_def u_def by (rule fl_error)
  moreover have "\<bar>90 * k\<bar> * u \<le> 3 * u"
    using k2 u(1) by (intro mult_right_mono) simp_all
  ultimately have r1: "\<bar>fl (90 * k) - 90 * k\<bar> \<le> 4 * u" using u by linarith
  have r2: "\<bar>90 * k - M / 2\<bar> \<le> 180 * u" using k1 by linarith
  have r3: "\<bar>M / 2 - pi / 2\<bar> \<le> e / 2" using e(1) by linarith
  have "\<bar>fl (90 * k) - pi / 2\<bar> \<le> 184 * u + e / 2"
    using r1 r2 r3 by linarith
  also have "\<dots> \<le> 184 * (1 / 10 ^ 15) + e / 2" using u(2) by linarith
  also have "\<dots> \<le> 1 / 10 ^ 11" by (rule e(3))
  finally show "\<bar>fl (90 * fl (M / 180)) - pi / 2\<bar> \<le> 1 / 10 ^ 11" unfolding k_def .
qed

lemma kRadianToDegree_Finite:
  assumes M: "M = 884279719003555 / 2 ^ 48"
  shows "kRadianToDegree = Finite (fl (M / 180))"
    and "dmul (Finite 90) kRadianToDegree = Finite (fl (90 * fl (M / 180)))"
proof -
  define e :: real where "e = 1 / 10 ^ 12"
  have "\<bar>M - pi\<bar> \<le> e" "e \<le> 1" using pi_near_M_PI by (simp_all add: M e_def)
  then have "\<bar>M\<bar> \<le> 5" using pi_less_4 pi_gt_zero by linarith
  then have "\<bar>M / 180\<bar> \<le> 2 ^ 53" by simp
  then have a: "round_double (M / 180) = Finite (fl (M / 180))"
    by (rule round_double_unit)
  have "kRadianToDegree = ddiv (Finite M) (Finite 180)"
    by (simp only: kRadianToDegree_def M_PI_value M)
  then show k: "kRadianToDegree = Finite (fl (M / 180))"
    using a by simp
  have "\<bar>fl (M / 180)\<bar> \<le> 1 / 30" using M by (rule radian_consts(2))
  then have "\<bar>90 * fl (M / 180)\<bar> \<le> 2 ^ 53" by simp
  then have "round_double (90 * fl (M / 180)) = Finite (fl (90 * fl (M / 180)))"
    by (rule round_double_unit)
  then show "dmul (Finite 90) kRadianToDegree = Finite (fl (90 * fl (M / 180)))"
    by (simp add: k)
qed

lemma kRadianToDegree_near:
  "\<exists>k. kRadianToDegree = Finite k \<and> \<bar>k - pi / 180\<bar> \<le> 1 / 10 ^ 14"
  using kRadianToDegree_Finite(1) [OF refl] radian_consts(1) [OF refl] by blast

lemma Rotate_quarter_turn:
  assumes lc: "\<forall>x. \<exists>c. std_cos L (Finite x) = Finite c \<and> \<bar>c - cos x\<bar> \<le> 1 / 10 ^ 12"
    and ls: "\<forall>x. \<exists>s. std_sin L (Finite x) = Finite s \<and> \<bar>s - sin x\<bar> \<le> 1 / 10 ^ 12"
  shows "\<exists>x' y'. RotateStrategy_Transform L [Finite 1, Finite 0, Finite 0] (Finite 90) kZ
       = Some [Finite x', Finite y', Finite 0]
     \<and> \<bar>x' - 0\<bar> \<le> 1 / 10 ^ 10 \<and> \<bar>y' - (- 1)\<bar> \<le> 1 / 10 ^ 10"
proof -
  define M :: real where "M = 884279719003555 / 2 ^ 48"
  define r where "r = fl (90 * fl (M / 180))"
  define u :: real where "u = 2 powi (- 53)"
  define t :: real where "t = 2 powi (- 1075)"
  define e :: real where "e = 1 / 10 ^ 11"
  have angle: "dmul (Finite 90) kRadianToDegree = Finite r"
    unfolding r_def using M_def by (rule kRadianToDegree_Finite(2))
  obtain c where c: "std_cos L (Finite r) = Finite c" "\<bar>c - cos r\<bar> \<le> 1 / 10 ^ 12"
    using lc by blast
  obtain s where s: "std_sin L (Finite r) = Finite s" "\<bar>s - sin r\<bar> \<le> 1 / 10 ^ 12"
    using ls by blast
  have u: "0 < u" "u \<le> 1 / 10 ^ 15" "t \<le> u" "0 < t"
    using small_consts by (simp_all add: u_def t_def)
  have e: "(1::real) / 10 ^ 12 \<le> e" "0 < e" "e \<le> 1 / 10"
    "2 * e + 2 * (1 / 10 ^ 15) \<le> 1 / 10 ^ 10"
    "2 * (1 / 10 ^ 15) + (1 / 10 ^ 15) + 2 * e \<le> 1 / 10 ^ 10"
    by (simp_all add: e_def)
  have r: "\<bar>r - pi / 2\<bar> \<le> e"
    unfolding r_def e_def using M_def by (rule radian_consts(3))
  have "\<bar>cos r\<bar> = \<bar>sin (pi / 2 - r)\<bar>" by (simp add: cos_sin_eq)
  also have "\<dots> \<le> \<bar>pi / 2 - r\<bar>" by (rule abs_sin_x_le_abs_x)
  finally have cr: "\<bar>cos r\<bar> \<le> e" using r by linarith
  have "\<bar>sin r - sin (pi / 2)\<bar> \<le> \<bar>r - pi / 2\<bar>" by (rule sin_lipschitz)
  then have sr: "\<bar>sin r - 1\<bar> \<le> e" using r by simp
  from c(2) cr e(1) have c2: "\<bar>c\<bar> \<le> 2 * e" by linarith
  from s(2) sr e(1) have s2: "\<bar>s - 1\<bar> \<le> 2 * e" by linarith
  have cb: "\<bar>c\<bar> \<le> 2 ^ 53" using c2 e(3) by simp
  have sb: "\<bar>- s\<bar> \<le> 2 ^ 53" using s2 e(3) by simp
  have u1: "u \<le> 1 / 4" "e \<le> 1 / 4" using u(2) e(3) by simp_all
  have fcb: "\<bar>fl c\<bar> \<le> 2 ^ 53" "\<bar>fl (- s)\<bar> \<le> 2 ^ 53"
  proof -
    have "\<bar>fl c - c\<bar> \<le> t + \<bar>c\<bar> * u" unfolding t_def u_def by (rule fl_error)
    moreover have "\<bar>c\<bar> * u \<le> 1 * u" using c2 e(3) u(1) by (intro mult_right_mono) linarith+
    ultimately have "\<bar>fl c\<bar> \<le> 2" using c2 u1 u(1,3,4) by linarith
    then show "\<bar>fl c\<bar> \<le> 2 ^ 53" by simp
    have "\<bar>fl (- s) - (- s)\<bar> \<le> t + \<bar>- s\<bar> * u" unfolding t_def u_def by (rule fl_error)
    moreover have "\<bar>- s\<bar> * u \<le> 2 * u" using s2 e(3) u(1) by (intro mult_right_mono) linarith+
    ultimately have "\<bar>fl (- s)\<bar> \<le> 3" using s2 u1 u(1,3,4) by linarith
    then show "\<bar>fl (- s)\<bar> \<le> 2 ^ 53" by simp
  qed
  have p1: "dadd (dmul (Finite c) (Finite 1)) (dmul (Finite s) (Finite 0)) = Finite (fl c)"
    using round_double_unit [OF cb] round_double_unit [OF fcb(1)] by simp
  have p2: "dadd (dmul (dneg (Finite s)) (Finite 1)) (dmul (Finite c) (Finite 0))
      = Finite (fl (- s))"
    using round_double_unit [OF sb] round_double_unit [OF fcb(2)] by simp
  have ev: "RotateStrategy_Transform L [Finite 1, Finite 0, Finite 0] (Finite 90) kZ
      = Some [Finite (fl c), Finite (fl (- s)), Finite 0]"
    by (simp add: RotateStrategy_Transform_def Let_def RotateAroundZ_def
        kX_def kY_def kZ_def angle c(1) s(1) p1 p2 del: dadd.simps dmul.simps dneg.simps)
  have "\<bar>fl c\<bar> \<le> \<bar>c\<bar> + (t + \<bar>c\<bar> * u)"
    unfolding t_def u_def by (rule fl_abs_error)
  moreover have "\<bar>c\<bar> * u \<le> 1 * u" using c2 e(3) u(1) by (intro mult_right_mono) linarith+
  ultimately have "\<bar>fl c\<bar> \<le> 2 * e + 2 * u" using c2 u by linarith
  then have x: "\<bar>fl c - 0\<bar> \<le> 1 / 10 ^ 10" using e(4) u(2) by linarith
  have "\<bar>fl (- s) - (- s)\<bar> \<le> t + \<bar>- s\<bar> * u"
    unfolding t_def u_def by (rule fl_error)
  moreover have "\<bar>- s\<bar> * u \<le> 2 * u" using s2 e(3) u(1) by (intro mult_right_mono) linarith+
  ultimately have "\<bar>fl (- s) - (- 1)\<bar> \<le> 3 * u + 2 * e" using s2 u by linarith
  then have y: "\<bar>fl (- s) - (- 1)\<bar> \<le> 1 / 10 ^ 10" using e(5) u(2) by linarith
  from ev x y show ?thesis by blast
qed

lemma fl_unit_near:
  assumes "\<bar>y\<bar> \<le> 1"
  shows "\<bar>fl y - y\<bar> \<le> 1 / 10 ^ 12"
proof -
  define u :: real where "u = 2 powi (- 53)"
  define t :: real where "t = 2 powi (- 1075)"
  have u: "0 < u" "u \<le> 1 / 10 ^ 15" "t \<le> u" "0 < t"
    using small_consts by (simp_all add: u_def t_def)
  have "\<bar>fl y - y\<bar> \<le> t + \<bar>y\<bar> * u"
    unfolding t_def u_def by (rule fl_error)
  moreover have "\<bar>y\<bar> * u \<le> 1 * u" using assms u(1) by (intro mult_right_mono) simp_all
  moreover have "2 * (1 / 10 ^ 15) \<le> (1 / 10 ^ 12 :: real)" by simp
  ultimately show ?thesis using u by linarith
qed

lemma unit_le_pow: "\<bar>y\<bar> \<le> 1 \<Longrightarrow> \<bar>y\<bar> \<le> (2::real) ^ 53"
proof -
  have "(1::real) \<le> 2 ^ 53" by simp
  then show "\<bar>y\<bar> \<le> 1 \<Longrightarrow> \<bar>y\<bar> \<le> (2::real) ^ 53" by linarith
qed

text \<open>The correctly rounded library is accurate to \<open>10\<^sup>-\<^sup>1\<^sup>2\<close> on every finite argument.\<close>

lemma rounded_libm_accurate:
  "\<exists>c. std_cos rounded_libm (Finite x) = Finite c \<and> \<bar>c - cos x\<bar> \<le> 1 / 10 ^ 12"
  "\<exists>s. std_sin rounded_libm (Finite x) = Finite s \<and> \<bar>s - sin x\<bar> \<le> 1 / 10 ^ 12"
proof -
  have "\<bar>cos x\<bar> \<le> 2 ^ 53" using abs_cos_le_one [of x] by (rule unit_le_pow)
  then have "round_double (cos x) = Finite (fl (cos x))" by (rule round_double_unit)
  then show "\<exists>c. std_cos rounded_libm (Finite x) = Finite c \<and> \<bar>c - cos x\<bar> \<le> 1 / 10 ^ 12"
    using fl_unit_near [OF abs_cos_le_one, of x] by (simp add: rounded_libm_def)
  have "\<bar>sin x\<bar> \<le> 2 ^ 53" using abs_sin_le_one [of x] by (rule unit_le_pow)
  then have "round_double (sin x) = Finite (fl (sin x))" by (rule round_double_unit)
  then show "\<exists>s. std_sin rounded_libm (Finite x) = Finite s \<and> \<bar>s - sin x\<bar> \<le> 1 / 10 ^ 12"
    using fl_unit_near [OF abs_sin_le_one, of x] by (simp add: rounded_libm_def)
qed

text \<open>
  Claim C8. \<^verbatim>\<open>RotateStrategy::Transform\<close> multiplies the angle by \<^verbatim>\<open>kRadianToDegree\<close>,
  which is \<open>\<pi> / 180\<close> within \<open>10\<^sup>-\<^sup>1\<^sup>4\<close>, takes one cosine and one sine of the product,
  and on a buffer of whole vertices rotates every vertex in the plane of the two other
  axes by the formulas of the specification. When \<^verbatim>\<open>std::cos\<close> and \<^verbatim>\<open>std::sin\<close> are
  accurate to \<open>10\<^sup>-\<^sup>1\<^sup>2\<close> on finite arguments, rotating the vertex \<open>(1, 0, 0)\<close> by
  90 degrees around Z gives \<open>(0, -1, 0)\<close> within \<open>10\<^sup>-\<^sup>1\<^sup>0\<close>. A buffer of fewer than
  3 coordinates is left as it is.
\<close>

theorem Rotate_applies_plane_rotation:
  "(\<exists>k. kRadianToDegree = Finite k \<and> \<bar>k - pi / 180\<bar> \<le> 1 / 10 ^ 14)
   \<and> (3 \<le> length v \<and> length v mod 3 = 0 \<and> (axis = kX \<or> axis = kY \<or> axis = kZ) \<longrightarrow>
      (\<exists>v'. RotateStrategy_Transform L v angle axis = Some v' \<and> length v' = length v \<and>
         (\<forall>k < length v div 3.
            (v' ! (3 * k), v' ! (3 * k + 1), v' ! (3 * k + 2)) =
              spec_rotate_vertex axis
                (std_cos L (dmul angle kRadianToDegree))
                (std_sin L (dmul angle kRadianToDegree))
                (v ! (3 * k), v ! (3 * k + 1), v ! (3 * k + 2)))))
   \<and> ((\<forall>x. \<exists>c. std_cos L (Finite x) = Finite c \<and> \<bar>c - cos x\<bar> \<le> 1 / 10 ^ 12)
        \<and> (\<forall>x. \<exists>s. std_sin L (Finite x) = Finite s \<and> \<bar>s - sin x\<bar> \<le> 1 / 10 ^ 12) \<longrightarrow>
      (\<exists>x' y'. RotateStrategy_Transform L [Finite 1, Finite 0, Finite 0] (Finite 90) kZ
           = Some [Finite x', Finite y', Finite 0]
         \<and> \<bar>x' - 0\<bar> \<le> 1 / 10 ^ 10 \<and> \<bar>y' - (- 1)\<bar> \<le> 1 / 10 ^ 10))
   \<and> (length v < 3 \<longrightarrow> RotateStrategy_Transform L v angle axis = Some v)"
proof (intro conjI impI)
  show "\<exists>k. kRadianToDegree = Finite k \<and> \<bar>k - pi / 180\<bar> \<le> 1 / 10 ^ 14"
    by (rule kRadianToDegree_near)
  show "\<exists>v'. RotateStrategy_Transform L v angle axis = Some v' \<and> length v' = length v \<and>
         (\<forall>k < length v div 3.
            (v' ! (3 * k), v' ! (3 * k + 1), v' ! (3 * k + 2)) =
              spec_rotate_vertex axis
                (std_cos L (dmul angle kRadianToDegree))
                (std_sin L (dmul angle kRadianToDegree))
                (v ! (3 * k), v ! (3 * k + 1), v ! (3 * k + 2)))"
    if "3 \<le> length v \<and> length v mod 3 = 0 \<and> (axis = kX \<or> axis = kY \<or> axis = kZ)"
    using that by (intro Rotate_vertices) blast+
  show "\<exists>x' y'. RotateStrategy_Transform L [Finite 1, Finite 0, Finite 0] (Finite 90) kZ
           = Some [Finite x', Finite y', Finite 0]
         \<and> \<bar>x' - 0\<bar> \<le> 1 / 10 ^ 10 \<and> \<bar>y' - (- 1)\<bar> \<le> 1 / 10 ^ 10"
    if "(\<forall>x. \<exists>c. std_cos L (Finite x) = Finite c \<and> \<bar>c - cos x\<bar> \<le> 1 / 10 ^ 12)
        \<and> (\<forall>x. \<exists>s. std_sin L (Finite x) = Finite s \<and> \<bar>s - sin x\<bar> \<le> 1 / 10 ^ 12)"
    using that by (intro Rotate_quarter_turn) blast+
  show "RotateStrategy_Transform L v angle axis = Some v" if "length v < 3"
    using that by (simp add: RotateStrategy_Transform_def)
qed

text \<open>
  The hypotheses hold for a library that returns the double nearest to the cosine and to
  the sine.
\<close>

theorem Rotate_applies_plane_rotation_witness:
  "(\<exists>v'. RotateStrategy_Transform rounded_libm [Finite 1, Finite 0, Finite 0] (Finite 90) kZ
        = Some v' \<and> length v' = 3 \<and>
        (v' ! 0, v' ! 1, v' ! 2) =
          spec_rotate_vertex kZ
            (std_cos rounded_libm (dmul (Finite 90) kRadianToDegree))
            (std_sin rounded_libm (dmul (Finite 90) kRadianToDegree))
            (Finite 1, Finite 0, Finite 0))
   \<and> (\<exists>x' y'. RotateStrategy_Transform rounded_libm [Finite 1, Finite 0, Finite 0] (Finite 90) kZ
          = Some [Finite x', Finite y', Finite 0]
        \<and> \<bar>x' - 0\<bar> \<le> 1 / 10 ^ 10 \<and> \<bar>y' - (- 1)\<bar> \<le> 1 / 10 ^ 10)
   \<and> RotateStrategy_Transform rounded_libm [Finite 1, Finite 2] (Finite 90) kZ
        = Some [Finite 1, Finite 2]"
proof -
  define L where "L = rounded_libm"
  note T1 = Rotate_applies_plane_rotation [of "[Finite 1, Finite 0, Finite 0]" kZ L "Finite 90"]
  note T2 = Rotate_applies_plane_rotation [of "[Finite 1, Finite 2]" kZ L "Finite 90"]
  have h1: "3 \<le> length [Finite 1, Finite 0, Finite 0]
      \<and> length [Finite 1, Finite 0, Finite 0] mod 3 = 0
      \<and> (kZ = kX \<or> kZ = kY \<or> kZ = kZ)"
    by simp
  have h2: "(\<forall>x. \<exists>c. std_cos L (Finite x) = Finite c \<and> \<bar>c - cos x\<bar> \<le> 1 / 10 ^ 12)
      \<and> (\<forall>x. \<exists>s. std_sin L (Finite x) = Finite s \<and> \<bar>s - sin x\<bar> \<le> 1 / 10 ^ 12)"
    unfolding L_def using rounded_libm_accurate by blast
  have h3: "length [Finite 1, Finite 2] < 3" by simp
  from T1 h1 obtain v' where v':
    "RotateStrategy_Transform L [Finite 1, Finite 0, Finite 0] (Finite 90) kZ = Some v'"
    "length v' = length [Finite 1, Finite 0, Finite 0]"
    "\<forall>k < length [Finite 1, Finite 0, Finite 0] div 3.
       (v' ! (3 * k), v' ! (3 * k + 1), v' ! (3 * k + 2)) =
         spec_rotate_vertex kZ
           (std_cos L (dmul (Finite 90) kRadianToDegree))
           (std_sin L (dmul (Finite 90) kRadianToDegree))
           ([Finite 1, Finite 0, Finite 0] ! (3 * k), [Finite 1, Finite 0, Finite 0] ! (3 * k + 1),
            [Finite 1, Finite 0, Finite 0] ! (3 * k + 2))"
    by blast
  from v'(3) have "(v' ! 0, v' ! 1, v' ! 2) =
      spec_rotate_vertex kZ
        (std_cos L (dmul (Finite 90) kRadianToDegree))
        (std_sin L (dmul (Finite 90) kRadianToDegree)) (Finite 1, Finite 0, Finite 0)"
    by (auto dest: spec [of _ 0] simp add: numeral_2_eq_2)
  with v'(1,2) have 1: "\<exists>v'. RotateStrategy_Transform L [Finite 1, Finite 0, Finite 0] (Finite 90) kZ
        = Some v' \<and> length v' = 3 \<and>
        (v' ! 0, v' ! 1, v' ! 2) =
          spec_rotate_vertex kZ
            (std_cos L (dmul (Finite 90) kRadianToDegree))
            (std_sin L (dmul (Finite 90) kRadianToDegree))
            (Finite 1, Finite 0, Finite 0)"
    by simp
  from T1 h2 have 2: "\<exists>x' y'. RotateStrategy_Transform L [Finite 1, Finite 0, Finite 0] (Finite 90) kZ
        = Some [Finite x', Finite y', Finite 0]
        \<and> \<bar>x' - 0\<bar> \<le> 1 / 10 ^ 10 \<and> \<bar>y' - (- 1)\<bar> \<le> 1 / 10 ^ 10"
    by blast
  from T2 h3 have 3: "RotateStrategy_Transform L [Finite 1, Finite 2] (Finite 90) kZ
      = Some [Finite 1, Finite 2]"
    by blast
  from 1 2 3 show ?thesis unfolding L_def by blast
qed

section \<open>Scaling\<close>

text \<open>
  Twice a finite double below \<open>2\<^sup>1\<^sup>0\<^sup>2\<^sup>3\<close> in magnitude is a double, so the product is exact;
  from \<open>2\<^sup>1\<^sup>0\<^sup>2\<^sup>3\<close> on the product overflows.
\<close>

lemma double_times2:
  assumes "fl c = c"
  shows "\<bar>c\<bar> < 2 ^ 1023 \<Longrightarrow> dmul (Finite c) (Finite 2) = Finite (c * 2)"
    and "2 ^ 1023 \<le> \<bar>c\<bar> \<Longrightarrow> dmul (Finite c) (Finite 2) = (if 0 < c then PInf else NInf)"
proof -
  define B :: real where "B = 2 ^ 1023"
  have B: "2 ^ 1024 = 2 * B" by (simp add: B_def)
  have f: "fl (c * 2) = c * 2" using assms by (rule fl_fixed_times2)
  show "dmul (Finite c) (Finite 2) = Finite (c * 2)" if "\<bar>c\<bar> < 2 ^ 1023"
  proof -
    from that have "\<bar>fl (c * 2)\<bar> < 2 ^ 1024" unfolding f B B_def [symmetric] by linarith
    then have "round_double (c * 2) = Finite (fl (c * 2))" by (rule round_double_Finite)
    then show ?thesis by (simp add: f)
  qed
  show "dmul (Finite c) (Finite 2) = (if 0 < c then PInf else NInf)" if "2 ^ 1023 \<le> \<bar>c\<bar>"
  proof -
    from that have "2 ^ 1024 \<le> \<bar>fl (c * 2)\<bar>" unfolding f B B_def [symmetric] by linarith
    then have "round_double (c * 2) = (if 0 < fl (c * 2) then PInf else NInf)"
      by (simp only: round_double_def Let_def if_True)
    then show ?thesis by (simp add: f)
  qed
qed

lemma Scale_doubles:
  assumes "\<forall>c \<in> set cs. fl c = c \<and> \<bar>c\<bar> < 2 ^ 1023"
  shows "ScaleStrategy_Transform (map Finite cs) (Finite 2) axis = map (\<lambda>c. Finite (c * 2)) cs"
  using assms double_times2(1) by (simp add: ScaleStrategy_Transform_def del: dmul.simps)

lemma pow_1023_double: "fl (2 ^ 1023) = 2 ^ 1023"
proof -
  have "fl (of_int 1 * 2 powi 1023) = of_int 1 * 2 powi 1023"
    by (rule fl_representable) simp_all
  moreover have "(2::real) powi 1023 = 2 ^ 1023" by (rule power_int_numeral)
  ultimately show ?thesis by (simp only: of_int_1 mult_1)
qed

text \<open>
  Claim C9. \<^verbatim>\<open>ScaleStrategy::Transform\<close> leaves the buffer as it is for a value \<open>\<le> 0\<close>;
  for a value \<open>> 0\<close> (and for a NaN, which is not \<open>\<le> 0\<close>) it multiplies every coordinate by
  the value, whatever the axis is. Scaling by 2 doubles every coordinate that is a finite
  double below \<open>2\<^sup>1\<^sup>0\<^sup>2\<^sup>3\<close> in magnitude, exactly; a finite double of magnitude \<open>2\<^sup>1\<^sup>0\<^sup>2\<^sup>3\<close> or
  more becomes the infinity of its sign.
\<close>

theorem Scale_multiplies_every_coordinate:
  "(dle scale (Finite 0) \<longrightarrow> ScaleStrategy_Transform v scale axis = v)
   \<and> (dless (Finite 0) scale \<or> scale = NaN \<longrightarrow>
        ScaleStrategy_Transform v scale axis = map (\<lambda>coord. dmul coord scale) v)
   \<and> ScaleStrategy_Transform v scale axis = ScaleStrategy_Transform v scale axis'
   \<and> ((\<forall>c \<in> set cs. fl c = c \<and> \<bar>c\<bar> < 2 ^ 1023) \<longrightarrow>
        ScaleStrategy_Transform (map Finite cs) (Finite 2) axis = map (\<lambda>c. Finite (c * 2)) cs)
   \<and> (fl b = b \<and> 2 ^ 1023 \<le> \<bar>b\<bar> \<longrightarrow>
        ScaleStrategy_Transform [Finite b] (Finite 2) axis = [if 0 < b then PInf else NInf])"
proof (intro conjI impI)
  show "ScaleStrategy_Transform v scale axis = v" if "dle scale (Finite 0)"
    using that by (simp add: ScaleStrategy_Transform_def)
  show "ScaleStrategy_Transform v scale axis = map (\<lambda>coord. dmul coord scale) v"
    if "dless (Finite 0) scale \<or> scale = NaN"
  proof -
    from that have "\<not> dle scale (Finite 0)" by (cases scale) auto
    then show ?thesis by (simp add: ScaleStrategy_Transform_def)
  qed
  show "ScaleStrategy_Transform v scale axis = ScaleStrategy_Transform v scale axis'"
    by (simp add: ScaleStrategy_Transform_def)
  show "ScaleStrategy_Transform (map Finite cs) (Finite 2) axis = map (\<lambda>c. Finite (c * 2)) cs"
    if "\<forall>c \<in> set cs. fl c = c \<and> \<bar>c\<bar> < 2 ^ 1023"
    using that by (rule Scale_doubles)
  show "ScaleStrategy_Transform [Finite b] (Finite 2) axis = [if 0 < b then PInf else NInf]"
    if "fl b = b \<and> 2 ^ 1023 \<le> \<bar>b\<bar>"
    using that double_times2(2) [of b] by (simp add: ScaleStrategy_Transform_def del: dmul.simps)
qed

theorem Scale_multiplies_every_coordinate_witness:
  "ScaleStrategy_Transform
       (map Finite [0, 0, 0, 1, 0, 0, 1, 1, 0]) (Finite (- 1)) kX
     = map Finite [0, 0, 0, 1, 0, 0, 1, 1, 0]
   \<and> ScaleStrategy_Transform (map Finite [0, 0, 0, 1, 0, 0, 1, 1, 0]) (Finite 0) kX
     = map Finite [0, 0, 0, 1, 0, 0, 1, 1, 0]
   \<and> ScaleStrategy_Transform (map Finite [0, 0, 0, 1, 0, 0, 1, 1, 0]) (Finite (1 / 3)) kY
       = map (\<lambda>coord. dmul coord (Finite (1 / 3))) (map Finite [0, 0, 0, 1, 0, 0, 1, 1, 0])
   \<and> ScaleStrategy_Transform (map Finite [0, 0, 0, 1, 0, 0, 1, 1, 0]) (Finite 2) kZ
       = map Finite [0, 0, 0, 2, 0, 0, 2, 2, 0]
   \<and> ScaleStrategy_Transform [Finite (2 ^ 1023)] (Finite 2) kX = [PInf]"
proof -
  define v where "v = map Finite [0, 0, 0, 1, 0, 0, 1, 1, 0]"
  have h: "\<forall>c \<in> set [0, 0, 0, 1, 0, 0, 1, 1, 0 :: real]. fl c = c \<and> \<bar>c\<bar> < 2 ^ 1023"
    by simp
  have 1: "ScaleStrategy_Transform v (Finite (- 1)) kX = v"
    using Scale_multiplies_every_coordinate [of "Finite (- 1)" v kX] by simp
  have 2: "ScaleStrategy_Transform v (Finite 0) kX = v"
    using Scale_multiplies_every_coordinate [of "Finite 0" v kX] by simp
  have 3: "ScaleStrategy_Transform v (Finite (1 / 3)) kY
       = map (\<lambda>coord. dmul coord (Finite (1 / 3))) v"
    using Scale_multiplies_every_coordinate [of "Finite (1 / 3)" v kY] by simp
  have "ScaleStrategy_Transform (map Finite [0, 0, 0, 1, 0, 0, 1, 1, 0]) (Finite 2) kZ
       = map (\<lambda>c. Finite (c * 2)) [0, 0, 0, 1, 0, 0, 1, 1, 0]"
    using Scale_multiplies_every_coordinate [of _ _ kZ _ "[0, 0, 0, 1, 0, 0, 1, 1, 0]"] h
    by blast
  then have 4: "ScaleStrategy_Transform v (Finite 2) kZ = map Finite [0, 0, 0, 2, 0, 0, 2, 2, 0]"
    by (simp add: v_def)
  have h5: "fl (2 ^ 1023) = 2 ^ 1023 \<and> (2::real) ^ 1023 \<le> \<bar>2 ^ 1023\<bar>"
    using pow_1023_double by simp
  have "ScaleStrategy_Transform [Finite (2 ^ 1023)] (Finite 2) kX
      = [if (0::real) < 2 ^ 1023 then PInf else NInf]"
    using Scale_multiplies_every_coordinate [of _ _ kX _ _ "2 ^ 1023"] h5 by blast
  then have 5: "ScaleStrategy_Transform [Finite (2 ^ 1023)] (Finite 2) kX = [PInf]"
    by simp
  from 1 2 3 4 5 show ?thesis unfolding v_def by blast
qed

section \<open>Dispatch of a transformation\<close>

text \<open>
  Claim C10. For a \<^verbatim>\<open>strategy_type\<close> other than 0 (\<^verbatim>\<open>kMove\<close>), 1 (\<^verbatim>\<open>kRotate\<close>) and
  2 (\<^verbatim>\<open>kScale\<close>), \<^verbatim>\<open>Model::Transform\<close> returns normally and leaves the whole model as it
  was: coordinates, edge indices and error code.
\<close>

theorem Model_Transform_unknown_kind_noop:
  "strategy_type \<noteq> 0 \<Longrightarrow> strategy_type \<noteq> 1 \<Longrightarrow> strategy_type \<noteq> 2 \<Longrightarrow>
   Model_Transform L strategy_type val axis m = Some m"
  by (simp add: Model_Transform_def kMove_def kRotate_def kScale_def)

theorem Model_Transform_unknown_kind_noop_witness:
  "(7::int) \<noteq> 0 \<and> (7::int) \<noteq> 1 \<and> (7::int) \<noteq> 2
   \<and> Model_Transform rounded_libm 7 (Finite (5 / 2)) kX
       \<lparr>filename = ''cube.obj'', vertex_coord = [Finite 1, Finite 2, Finite 3], vertex_index = [0, 0],
        error_code = kNoError, strategy = Some ScaleStrategy\<rparr>
     = Some \<lparr>filename = ''cube.obj'', vertex_coord = [Finite 1, Finite 2, Finite 3], vertex_index = [0, 0],
        error_code = kNoError, strategy = Some ScaleStrategy\<rparr>"
  using Model_Transform_unknown_kind_noop [of 7]
  by simp

end
